theory Spec2Isabelle
  imports Complex_Main "HOL-Library.Char_ord" "HOL-Library.List_Lexorder"
begin

section \<open>Data model\<close>

text \<open>
  The rows of the two tables of \<^verbatim>\<open>supabase/migration.sql\<close> and the interfaces of
  \<^verbatim>\<open>types.ts\<close>.  A \<^verbatim>\<open>uuid\<close> is kept as the string the TypeScript side sees; the
  ordering of strings (bytewise, as for the hexadecimal text of a uuid) is used only by
  \<^verbatim>\<open>order by graph.id\<close>.  A JavaScript \<^verbatim>\<open>number\<close> and an SQL \<^verbatim>\<open>float\<close> are modelled by
  \<open>real\<close>: comparisons and \<^verbatim>\<open>Math.max\<close>/\<^verbatim>\<open>Math.min\<close> are exact on finite values, and
  \<^verbatim>\<open>NaN\<close> is not a value of the model.  The field \<^verbatim>\<open>id\<close> is written \<open>id'\<close>, the table
  \<^verbatim>\<open>notes\<close> is \<open>notes_tab\<close> and \<^verbatim>\<open>connections\<close> is \<open>connections_tab\<close>.  A table and the
  result of a query are lists; where SQL leaves the order of the rows open, the model
  keeps the order in which the rows are produced from the tables.
\<close>

type_synonym uuid = string

text \<open>The four columns every projection of a note carries.\<close>

record NoteRow =
  id' :: uuid
  title :: "string option"
  content :: string
  tags :: "string list"

record Note = NoteRow +
  source :: string
  embedding :: "real list option"
  created_at :: nat
  updated_at :: nat

record SimilarNote = NoteRow +
  similarity :: real

record GraphNode = NoteRow +
  depth :: int
  connection_label :: string
  connection_strength :: real

text \<open>
  \<^verbatim>\<open>label\<close> and \<^verbatim>\<open>strength\<close> occur in a stored edge, in a classifier assessment and
  in an entry of \<^verbatim>\<open>connectionsCreated\<close>; the three records share them.
\<close>

record Relationship =
  label :: string
  strength :: real

record Connection = Relationship +
  edge_id :: uuid
  source_id :: uuid
  target_id :: uuid
  reasoning :: "string option"
  edge_created_at :: nat

record ConnectionAssessment = Relationship +
  note_id :: string
  assessment_reasoning :: string

record CreatedConnection = Relationship +
  created_target_id :: string
  target_title :: "string option"
  created_reasoning :: string

text \<open>The columns \<^verbatim>\<open>getInterestGraph\<close> selects from \<^verbatim>\<open>notes\<close>.\<close>

record InterestGraphNode = NoteRow +
  node_source :: string
  node_created_at :: nat

record db =
  notes_tab :: "Note list"
  connections_tab :: "Connection list"

definition VALID_LABELS :: "string list" where
  "VALID_LABELS = [''supports'', ''contradicts'', ''follows_from'', ''expands_on'', ''related_to'']"

section \<open>The SQL functions of the migration\<close>

subsection \<open>\<^verbatim>\<open>get_connections\<close>: direct connections\<close>

definition graph_node :: "Note \<Rightarrow> int \<Rightarrow> Connection \<Rightarrow> GraphNode" where
  "graph_node n d c =
     \<lparr>id' = id' n, title = title n, content = content n, tags = tags n,
      depth = d, connection_label = label c, connection_strength = strength c\<rparr>"

text \<open>The first arm: \<^verbatim>\<open>connections c join notes n on n.id = c.target_id where c.source_id = root\<close>.\<close>

definition outgoing_rows :: "db \<Rightarrow> uuid \<Rightarrow> real \<Rightarrow> GraphNode list" where
  "outgoing_rows d root_note_id min_strength =
     [graph_node n 1 c. c \<leftarrow> connections_tab d, n \<leftarrow> notes_tab d, id' n = target_id c,
        source_id c = root_note_id \<and> strength c \<ge> min_strength]"

text \<open>The second arm: \<^verbatim>\<open>join notes n on n.id = c.source_id where c.target_id = root\<close>.\<close>

definition incoming_rows :: "db \<Rightarrow> uuid \<Rightarrow> real \<Rightarrow> GraphNode list" where
  "incoming_rows d root_note_id min_strength =
     [graph_node n 1 c. c \<leftarrow> connections_tab d, n \<leftarrow> notes_tab d, id' n = source_id c,
        target_id c = root_note_id \<and> strength c \<ge> min_strength]"

text \<open>
  \<^verbatim>\<open>union\<close> (not \<^verbatim>\<open>union all\<close>) removes duplicate rows; a row is compared on all of
  its seven columns.
\<close>

definition get_connections :: "db \<Rightarrow> uuid \<Rightarrow> real \<Rightarrow> GraphNode list" where
  "get_connections d root_note_id min_strength =
     remdups (outgoing_rows d root_note_id min_strength @ incoming_rows d root_note_id min_strength)"

subsection \<open>\<^verbatim>\<open>get_connections_deep\<close>: the recursive query\<close>

text \<open>
  The recursive arm, evaluated on the rows \<open>g\<close> of the working table: every edge with
  \<open>g\<close> at one end, joined to the note at its other end, below \<^verbatim>\<open>max_depth\<close>, strong
  enough, and not the root.
\<close>

definition recursive_term :: "db \<Rightarrow> uuid \<Rightarrow> int \<Rightarrow> real \<Rightarrow> GraphNode list \<Rightarrow> GraphNode list" where
  "recursive_term d root_note_id max_depth min_strength working =
     [graph_node n (depth g + 1) c.
        g \<leftarrow> working, c \<leftarrow> connections_tab d, source_id c = id' g \<or> target_id c = id' g,
        n \<leftarrow> notes_tab d, id' n = (if source_id c = id' g then target_id c else source_id c),
        depth g < max_depth \<and> strength c \<ge> min_strength \<and> id' n \<noteq> root_note_id]"

text \<open>
  PostgreSQL evaluates \<^verbatim>\<open>with recursive ... union ...\<close> by iteration: the rows of the
  non-recursive arms (without duplicates) are the first result and the first working table;
  while the working table is not empty, the recursive arm is evaluated on it, rows that
  repeat an earlier result row or each other are discarded, and what remains is added to
  the result and becomes the next working table.
\<close>

definition loop_measure :: "int \<Rightarrow> GraphNode list \<Rightarrow> nat" where
  "loop_measure max_depth working =
     (if working = [] then 0 else 1 + nat (max_depth - Min (depth ` set working)))"

function graph_loop ::
  "db \<Rightarrow> uuid \<Rightarrow> int \<Rightarrow> real \<Rightarrow> GraphNode list \<Rightarrow> GraphNode list \<Rightarrow> GraphNode list" where
  "graph_loop d root_note_id max_depth min_strength result [] = result"
| "graph_loop d root_note_id max_depth min_strength result (w # ws) =
     (let new = remdups (filter (\<lambda>r. r \<notin> set result)
                  (recursive_term d root_note_id max_depth min_strength (w # ws)))
      in graph_loop d root_note_id max_depth min_strength (result @ new) new)"
  by pat_completeness auto
termination
proof (relation "measure (\<lambda>(d, root_note_id, max_depth, min_strength, result, working).
                    loop_measure max_depth working)")
  show "wf (measure (\<lambda>(d, root_note_id, max_depth, min_strength, result, working).
                    loop_measure max_depth working))"
    by simp
next
  fix d :: db and root_note_id :: uuid and max_depth :: int and min_strength :: real
    and result :: "GraphNode list" and w :: GraphNode and ws new :: "GraphNode list"
  assume new: "new = remdups (filter (\<lambda>r. r \<notin> set result)
                  (recursive_term d root_note_id max_depth min_strength (w # ws)))"
  have step: "\<exists>g\<in>set (w # ws). depth r = depth g + 1 \<and> depth g < max_depth"
    if "r \<in> set new" for r
    using that unfolding new recursive_term_def graph_node_def by auto
  have "loop_measure max_depth new < loop_measure max_depth (w # ws)"
  proof (cases "new = []")
    case True
    then show ?thesis by (simp add: loop_measure_def)
  next
    case False
    then have "Min (depth ` set new) \<in> depth ` set new"
      by (intro Min_in) auto
    then obtain r where r: "r \<in> set new" "depth r = Min (depth ` set new)"
      by auto
    from step [OF r(1)] obtain g
      where g: "g \<in> set (w # ws)" "depth r = depth g + 1" "depth g < max_depth"
      by blast
    have "Min (depth ` set (w # ws)) \<le> depth g"
      using g(1) by (intro Min_le) auto
    with g r(2) have "nat (max_depth - Min (depth ` set new))
        < nat (max_depth - Min (depth ` set (w # ws)))"
      by linarith
    with False show ?thesis by (simp add: loop_measure_def)
  qed
  then show "((d, root_note_id, max_depth, min_strength, result @ new, new),
              (d, root_note_id, max_depth, min_strength, result, w # ws))
             \<in> measure (\<lambda>(d, root_note_id, max_depth, min_strength, result, working).
                    loop_measure max_depth working)"
    by simp
qed

text \<open>The table \<^verbatim>\<open>graph\<close>: the loop started on the two non-recursive arms.\<close>

definition graph :: "db \<Rightarrow> uuid \<Rightarrow> int \<Rightarrow> real \<Rightarrow> GraphNode list" where
  "graph d root_note_id max_depth min_strength =
     (let base = remdups (outgoing_rows d root_note_id min_strength @
                          incoming_rows d root_note_id min_strength)
      in graph_loop d root_note_id max_depth min_strength base base)"

text \<open>
  \<^verbatim>\<open>select distinct on (graph.id) ... order by graph.id, graph.depth asc\<close>: the ids in
  ascending order, and for each id the first of its rows in ascending depth.  Which of
  several rows of one id and one depth comes first is left open by SQL; the model takes
  the earliest in \<open>graph\<close>.
\<close>

definition distinct_on_id :: "GraphNode list \<Rightarrow> GraphNode list" where
  "distinct_on_id rows =
     concat (map (\<lambda>i. take 1 (sort_key depth (filter (\<lambda>r. id' r = i) rows)))
                 (sort (remdups (map id' rows))))"

definition get_connections_deep :: "db \<Rightarrow> uuid \<Rightarrow> int \<Rightarrow> real \<Rightarrow> GraphNode list" where
  "get_connections_deep d root_note_id max_depth min_strength =
     distinct_on_id (graph d root_note_id max_depth min_strength)"

subsection \<open>\<^verbatim>\<open>match_notes\<close>: semantic search\<close>

definition similar_note :: "Note \<Rightarrow> real \<Rightarrow> SimilarNote" where
  "similar_note n s =
     \<lparr>id' = id' n, title = title n, content = content n, tags = tags n, similarity = s\<rparr>"

text \<open>
  \<open>cosine_distance\<close> is pgvector's operator \<^verbatim>\<open><=>\<close>, which belongs to the database
  extension and is a parameter here.  \<^verbatim>\<open>filter_tags\<close> is \<open>None\<close> for SQL \<^verbatim>\<open>null\<close>; \<^verbatim>\<open>@>\<close> is
  containment of every filter tag.
\<close>

definition match_notes ::
  "(real list \<Rightarrow> real list \<Rightarrow> real) \<Rightarrow> db \<Rightarrow> real list \<Rightarrow> real \<Rightarrow> nat \<Rightarrow> string list option
     \<Rightarrow> SimilarNote list" where
  "match_notes cosine_distance d query_embedding match_threshold match_count filter_tags =
     take match_count
       (map (\<lambda>(x, n). similar_note n (1 - x))
          (sort_key fst
             [(cosine_distance e query_embedding, n).
                n \<leftarrow> notes_tab d,
                e \<leftarrow> (case embedding n of None \<Rightarrow> [] | Some e \<Rightarrow> [e]),
                1 - cosine_distance e query_embedding > match_threshold \<and>
                (case filter_tags of None \<Rightarrow> True | Some ft \<Rightarrow> set ft \<subseteq> set (tags n))]))"

section \<open>The outside world\<close>

text \<open>
  What the program receives from outside in one request: the replies of the embedding and
  chat providers, the errors the database client reports, and the values the database
  generates.  Each is an explicit input, so that every \<^verbatim>\<open>throw\<close> of the source is a
  branch of the model; a thrown error is \<open>Inl\<close> of its message.
\<close>

datatype json =
  JNull | JBool bool | JNum real | JStr string | JArr "json list" | JObj "(string \<times> json) list"

record World =
  supabase :: bool
    \<comment> \<open>the module variable \<^verbatim>\<open>supabase\<close> of \<^verbatim>\<open>supabase.ts\<close> is already set\<close>
  SUPABASE_URL :: "string option"
  SUPABASE_SERVICE_KEY :: "string option"
  cosine_distance :: "real list \<Rightarrow> real list \<Rightarrow> real"
    \<comment> \<open>pgvector's \<^verbatim>\<open><=>\<close>\<close>
  match_notes_error :: "string option"
    \<comment> \<open>the error of \<^verbatim>\<open>db.rpc("match_notes", ...)\<close>, if any\<close>
  notes_select_error :: "string option"
    \<comment> \<open>the error of the fallback \<^verbatim>\<open>select\<close> on \<^verbatim>\<open>notes\<close>, if any\<close>
  note_lookup_error :: "string option"
    \<comment> \<open>the error of the \<^verbatim>\<open>select\<close> of \<^verbatim>\<open>getNoteById\<close>, if any\<close>
  get_connections_error :: "string option"
    \<comment> \<open>the error of \<^verbatim>\<open>db.rpc("get_connections", ...)\<close>, if any\<close>
  get_connections_deep_error :: "string option"
    \<comment> \<open>the error of \<^verbatim>\<open>db.rpc("get_connections_deep", ...)\<close>, if any\<close>
  graph_notes_error :: "string option"
    \<comment> \<open>the error of the \<^verbatim>\<open>select\<close> on \<^verbatim>\<open>notes\<close> of \<^verbatim>\<open>getInterestGraph\<close>, if any\<close>
  graph_edges_error :: "string option"
    \<comment> \<open>the error of its \<^verbatim>\<open>select\<close> on \<^verbatim>\<open>connections\<close>, if any\<close>
  embed :: "string \<Rightarrow> string + real list"
    \<comment> \<open>\<^verbatim>\<open>generateEmbedding\<close>: it throws, or returns the vector\<close>
  insert_note_reply :: "string + (uuid \<times> nat)"
    \<comment> \<open>the insert into \<^verbatim>\<open>notes\<close>: an error, or \<^verbatim>\<open>gen_random_uuid()\<close> and \<^verbatim>\<open>now()\<close>\<close>
  client :: bool
    \<comment> \<open>the module variable \<^verbatim>\<open>client\<close> of \<^verbatim>\<open>connections.ts\<close> is already set\<close>
  OPENAI_API_KEY :: "string option"
  completion :: "string + json list"
    \<comment> \<open>the body of the \<^verbatim>\<open>try\<close> up to \<^verbatim>\<open>safeJsonArray\<close>: the request throws, or
        the array parsed from the reply (\<open>[]\<close> when the reply holds no JSON array)\<close>
  upsert_reply :: "nat \<Rightarrow> string + (uuid \<times> nat)"
    \<comment> \<open>the \<open>i\<close>-th upsert into \<^verbatim>\<open>connections\<close> of this request: a transport or
        server error, or the \<^verbatim>\<open>gen_random_uuid()\<close> and \<^verbatim>\<open>now()\<close> a new row gets\<close>
  AUTO_CONNECT_TOP_K :: nat
    \<comment> \<open>of \<^verbatim>\<open>constants.ts\<close>, which is not among the sources\<close>

section \<open>\<^verbatim>\<open>services/supabase.ts\<close>\<close>

text \<open>
  \<^verbatim>\<open>getSupabase\<close>: the client, or the error thrown when none exists yet and the url or
  the key is missing or empty.  Every function below obtains the client first.
\<close>

definition getSupabase :: "World \<Rightarrow> string + unit" where
  "getSupabase w =
     (if supabase w then Inr ()
      else
        (case (SUPABASE_URL w, SUPABASE_SERVICE_KEY w) of
           (Some url, Some key) \<Rightarrow>
             if url = [] \<or> key = []
             then Inl ''Missing SUPABASE_URL or SUPABASE_SERVICE_KEY environment variables.''
             else Inr ()
         | _ \<Rightarrow> Inl ''Missing SUPABASE_URL or SUPABASE_SERVICE_KEY environment variables.''))"

text \<open>\<^verbatim>\<open>String.prototype.includes\<close>.\<close>

fun str_includes :: "string \<Rightarrow> string \<Rightarrow> bool" where
  "str_includes [] t = (t = [])"
| "str_includes (x # xs) t = (take (length t) (x # xs) = t \<or> str_includes xs t)"

text \<open>
  \<^verbatim>\<open>cosineSimilarity\<close>, over the reals (the rounding of the floating-point operations is
  not modelled).  The loop runs over the indices of \<open>a\<close>, which has the length of \<open>b\<close>.
\<close>

definition cosineSimilarity :: "real list \<Rightarrow> real list \<Rightarrow> real" where
  "cosineSimilarity a b =
     (if length a = 0 \<or> length b = 0 \<or> length a \<noteq> length b then 0
      else
        (case fold (\<lambda>(x, y) (dot, magA, magB). (dot + x * y, magA + x * x, magB + y * y))
                   (zip a b) (0, 0, 0) of
           (dot, magA, magB) \<Rightarrow>
             if magA = 0 \<or> magB = 0 then 0 else dot / (sqrt magA * sqrt magB)))"

text \<open>
  \<^verbatim>\<open>searchByEmbedding\<close>.  When the call of \<^verbatim>\<open>match_notes\<close> succeeds its rows are the
  result; the one error the function recovers from is that of a stale database function,
  and then the similarity is computed here.  The column \<^verbatim>\<open>embedding\<close> is read as the
  list of its numbers (\<^verbatim>\<open>parseEmbedding\<close> of a well-formed vector).
\<close>

definition searchByEmbedding ::
  "World \<Rightarrow> db \<Rightarrow> real list \<Rightarrow> nat \<Rightarrow> string list option \<Rightarrow> string + SimilarNote list" where
  "searchByEmbedding w d embedding' limit tags' =
     (case getSupabase w of
        Inl err \<Rightarrow> Inl err
      | Inr client' \<Rightarrow>
         (let tagFilter = (case tags' of
                             None \<Rightarrow> None
                           | Some ts \<Rightarrow> if length ts > 0 then Some ts else None)
          in case match_notes_error w of
               None \<Rightarrow> Inr (match_notes (cosine_distance w) d embedding' 0.3 limit tagFilter)
             | Some msg \<Rightarrow>
                 if str_includes msg ''Could not choose the best candidate function between''
                 then Inl ''Semantic search RPC overload ambiguity for match_notes. Apply supabase/migration.sql to remove legacy overloads.''
                 else if str_includes msg ''column n.user_id does not exist''
                 then
                   (case notes_select_error w of
                      Some m \<Rightarrow> Inl (''Semantic search failed: '' @ m)
                    | None \<Rightarrow>
                        Inr (take limit
                          (sort_key (\<lambda>row. - similarity row)
                            (filter (\<lambda>row. case tagFilter of
                                             None \<Rightarrow> True
                                           | Some ft \<Rightarrow> list_all (\<lambda>t. t \<in> set (tags row)) ft)
                              (filter (\<lambda>row. similarity row > 0.3)
                                [similar_note n (cosineSimilarity embedding' e).
                                   n \<leftarrow> notes_tab d,
                                   e \<leftarrow> (case embedding n of None \<Rightarrow> [] | Some e \<Rightarrow> [e])])))))
                 else Inl (''Semantic search failed: '' @ msg)))"

text \<open>
  \<^verbatim>\<open>insertNote\<close>.  The database generates the id and the timestamps; the primary key
  refuses an id that is already there.  The dimension of the vector is not checked.
\<close>

definition insertNote ::
  "World \<Rightarrow> db \<Rightarrow> string option \<Rightarrow> string \<Rightarrow> string list \<Rightarrow> string \<Rightarrow> real list
     \<Rightarrow> string + (db \<times> Note)" where
  "insertNote w d title' content' tags' source' embedding' =
     (case getSupabase w of
        Inl err \<Rightarrow> Inl err
      | Inr client' \<Rightarrow>
         (case insert_note_reply w of
            Inl msg \<Rightarrow> Inl (''Failed to insert note: '' @ msg)
          | Inr (new_id, now) \<Rightarrow>
              if new_id \<in> set (map id' (notes_tab d))
              then Inl ''Failed to insert note: duplicate key value violates unique constraint''
              else
                (let n = \<lparr>id' = new_id, title = title', content = content', tags = tags',
                           source = source', embedding = Some embedding',
                           created_at = now, updated_at = now\<rparr>
                 in Inr (d\<lparr>notes_tab := notes_tab d @ [n]\<rparr>, n))))"

text \<open>
  The upsert on \<^verbatim>\<open>(source_id, target_id, label)\<close>: a row with the same triple gets the
  new strength and reasoning, otherwise a row is added.
\<close>

definition same_triple :: "uuid \<Rightarrow> uuid \<Rightarrow> string \<Rightarrow> Connection \<Rightarrow> bool" where
  "same_triple s t l c = (source_id c = s \<and> target_id c = t \<and> label c = l)"

definition upsert :: "Connection list \<Rightarrow> Connection \<Rightarrow> Connection list \<times> Connection" where
  "upsert rows new =
     (case find (same_triple (source_id new) (target_id new) (label new)) rows of
        None \<Rightarrow> (rows @ [new], new)
      | Some old \<Rightarrow>
          (let row = old\<lparr>strength := strength new, reasoning := reasoning new\<rparr>
           in (map (\<lambda>c. if same_triple (source_id new) (target_id new) (label new) c
                         then row else c) rows, row)))"

text \<open>
  \<^verbatim>\<open>insertConnection\<close>, as the \<open>i\<close>-th upsert of the request, with the constraints of
  the table \<^verbatim>\<open>connections\<close>: both ends reference a note, the label is one of the five,
  the strength lies in \<open>[0,1]\<close>.
\<close>

definition insertConnection ::
  "World \<Rightarrow> nat \<Rightarrow> db \<Rightarrow> uuid \<Rightarrow> uuid \<Rightarrow> string \<Rightarrow> real \<Rightarrow> string option
     \<Rightarrow> string + (db \<times> Connection)" where
  "insertConnection w i d sourceId targetId label' strength' reasoning' =
     (case getSupabase w of
        Inl err \<Rightarrow> Inl err
      | Inr client' \<Rightarrow>
         (case upsert_reply w i of
            Inl msg \<Rightarrow> Inl (''Failed to insert connection: '' @ msg)
          | Inr (fresh, now) \<Rightarrow>
              if sourceId \<notin> set (map id' (notes_tab d)) \<or> targetId \<notin> set (map id' (notes_tab d))
              then Inl ''Failed to insert connection: violates foreign key constraint''
              else if label' \<notin> set VALID_LABELS \<or> \<not> (strength' \<ge> 0 \<and> strength' \<le> 1)
              then Inl ''Failed to insert connection: violates check constraint''
              else
                (case upsert (connections_tab d)
                        \<lparr>label = label', strength = strength', edge_id = fresh,
                         source_id = sourceId, target_id = targetId, reasoning = reasoning',
                         edge_created_at = now\<rparr> of
                   (rows, row) \<Rightarrow> Inr (d\<lparr>connections_tab := rows\<rparr>, row))))"

text \<open>\<^verbatim>\<open>getNoteById\<close>: the row of that id, \<open>None\<close> for \<^verbatim>\<open>null\<close>.\<close>

definition getNoteById :: "World \<Rightarrow> db \<Rightarrow> uuid \<Rightarrow> string + Note option" where
  "getNoteById w d noteId =
     (case getSupabase w of
        Inl err \<Rightarrow> Inl err
      | Inr client' \<Rightarrow>
         (case note_lookup_error w of
            Some msg \<Rightarrow> Inl (''Failed to fetch note: '' @ msg)
          | None \<Rightarrow> Inr (find (\<lambda>n. id' n = noteId) (notes_tab d))))"

text \<open>\<^verbatim>\<open>getDirectConnections\<close> and \<^verbatim>\<open>getDeepConnections\<close>: the two calls, or their error.\<close>

definition getDirectConnections :: "World \<Rightarrow> db \<Rightarrow> uuid \<Rightarrow> real \<Rightarrow> string + GraphNode list" where
  "getDirectConnections w d noteId minStrength =
     (case getSupabase w of
        Inl err \<Rightarrow> Inl err
      | Inr client' \<Rightarrow>
         (case get_connections_error w of
            Some msg \<Rightarrow> Inl (''Failed to get direct connections: '' @ msg)
          | None \<Rightarrow> Inr (get_connections d noteId minStrength)))"

definition getDeepConnections ::
  "World \<Rightarrow> db \<Rightarrow> uuid \<Rightarrow> int \<Rightarrow> real \<Rightarrow> string + GraphNode list" where
  "getDeepConnections w d noteId depth' minStrength =
     (case getSupabase w of
        Inl err \<Rightarrow> Inl err
      | Inr client' \<Rightarrow>
         (case get_connections_deep_error w of
            Some msg \<Rightarrow> Inl (''Failed to get deep connections: '' @ msg)
          | None \<Rightarrow> Inr (get_connections_deep d noteId depth' minStrength)))"

text \<open>
  \<^verbatim>\<open>getInterestGraph\<close>.  The filter on the tag applies before order and limit, whatever
  the order of the calls on the query builder; \<^verbatim>\<open>if (tag)\<close> is false for the empty
  string as for a missing tag.
\<close>

definition interest_node :: "Note \<Rightarrow> InterestGraphNode" where
  "interest_node n =
     \<lparr>id' = id' n, title = title n, content = content n, tags = tags n,
      node_source = source n, node_created_at = created_at n\<rparr>"

definition selected_notes :: "db \<Rightarrow> nat \<Rightarrow> string option \<Rightarrow> InterestGraphNode list" where
  "selected_notes d limit tag =
     take limit
      (map interest_node
       (sort_key (\<lambda>n. - int (created_at n))
          (filter (\<lambda>n. case tag of None \<Rightarrow> True
                        | Some t \<Rightarrow> if t = [] then True else t \<in> set (tags n))
                  (notes_tab d))))"

definition getInterestGraph ::
  "World \<Rightarrow> db \<Rightarrow> nat \<Rightarrow> real \<Rightarrow> string option
     \<Rightarrow> string + (InterestGraphNode list \<times> Connection list)" where
  "getInterestGraph w d limit minStrength tag =
     (case getSupabase w of
        Inl err \<Rightarrow> Inl err
      | Inr client' \<Rightarrow>
         (case graph_notes_error w of
            Some msg \<Rightarrow> Inl (''Failed to fetch graph notes: '' @ msg)
          | None \<Rightarrow>
              (let nodes = selected_notes d limit tag
               in if length nodes = 0 then Inr ([], [])
                  else
                    (let nodeIds = map id' nodes
                     in case graph_edges_error w of
                          Some msg \<Rightarrow> Inl (''Failed to fetch graph connections: '' @ msg)
                        | None \<Rightarrow>
                            Inr (nodes,
                                 filter (\<lambda>c. source_id c \<in> set nodeIds \<and> target_id c \<in> set nodeIds
                                              \<and> strength c \<ge> minStrength)
                                        (connections_tab d))))))"

section \<open>\<^verbatim>\<open>services/connections.ts\<close>\<close>

text \<open>\<^verbatim>\<open>getOpenAI\<close>: whether a client is returned (\<^verbatim>\<open>!apiKey\<close> holds for the empty key too).\<close>

definition getOpenAI :: "World \<Rightarrow> bool" where
  "getOpenAI w =
     (if client w then True
      else case OPENAI_API_KEY w of None \<Rightarrow> False | Some k \<Rightarrow> k \<noteq> [])"

text \<open>
  Reading a property of a parsed JSON value other than \<^verbatim>\<open>null\<close>; \<open>None\<close> is
  \<^verbatim>\<open>undefined\<close>.  A parsed object holds each of its keys once.  Numbers, strings,
  booleans and arrays have none of the four properties the filter reads.
\<close>

fun property :: "json \<Rightarrow> string \<Rightarrow> json option" where
  "property (JObj kvs) k = map_of kvs k"
| "property v k = None"

text \<open>
  The callback of \<^verbatim>\<open>filter\<close> with its type guard: \<open>Inl\<close> when it throws, \<open>Inr None\<close> when
  it answers false, \<open>Inr (Some a)\<close> when it answers true and the item is the assessment
  \<open>a\<close>.  The first conjunct already reads a property of the item, and reading a property
  of \<^verbatim>\<open>null\<close> throws a \<^verbatim>\<open>TypeError\<close>.
\<close>

definition is_assessment :: "json \<Rightarrow> string + ConnectionAssessment option" where
  "is_assessment item =
     (case item of
        JNull \<Rightarrow> Inl ''Cannot read properties of null (reading note_id)''
      | _ \<Rightarrow>
         (case (property item ''note_id'', property item ''reasoning'',
                property item ''strength'', property item ''label'') of
            (Some (JStr i), Some (JStr r), Some (JNum s), Some (JStr l)) \<Rightarrow>
              if s \<ge> 0 \<and> s \<le> 1 \<and> l \<in> set VALID_LABELS
              then Inr (Some \<lparr>label = l, strength = s, note_id = i, assessment_reasoning = r\<rparr>)
              else Inr None
          | _ \<Rightarrow> Inr None))"

text \<open>\<^verbatim>\<open>Array.prototype.filter\<close> with that callback: the first throw ends it.\<close>

fun filter_assessments :: "json list \<Rightarrow> string + ConnectionAssessment list" where
  "filter_assessments [] = Inr []"
| "filter_assessments (item # items) =
     (case is_assessment item of
        Inl err \<Rightarrow> Inl err
      | Inr keep \<Rightarrow>
         (case filter_assessments items of
            Inl err \<Rightarrow> Inl err
          | Inr rest \<Rightarrow> Inr (case keep of None \<Rightarrow> rest | Some a \<Rightarrow> a # rest)))"

text \<open>
  \<^verbatim>\<open>assessConnections\<close>.  The prompt is built from strings only and cannot throw; every
  error inside the \<^verbatim>\<open>try\<close> is caught, logged and answered with \<open>[]\<close>.
\<close>

definition assessConnections ::
  "World \<Rightarrow> string option \<times> string \<times> string list \<Rightarrow> SimilarNote list
     \<Rightarrow> string + ConnectionAssessment list" where
  "assessConnections w newNote candidates =
     (if \<not> getOpenAI w \<or> length candidates = 0 then Inr []
      else
        (case completion w of
           Inl err \<Rightarrow> Inr []
         | Inr parsed \<Rightarrow>
            (case filter_assessments parsed of
               Inl err \<Rightarrow> Inr []
             | Inr assessments \<Rightarrow> Inr assessments)))"

text \<open>
  The validation in the words of the specification: the label belongs to the closed
  enumeration, the strength lies in \<open>[0,1]\<close>, and \<^verbatim>\<open>note_id\<close> and \<^verbatim>\<open>reasoning\<close> are
  strings.  \<open>assessment_of\<close> reads the four fields of an entry that passes.
\<close>

definition passes_validation :: "json \<Rightarrow> bool" where
  "passes_validation item =
     ((case property item ''label'' of Some (JStr l) \<Rightarrow> l \<in> set VALID_LABELS | _ \<Rightarrow> False) \<and>
      (case property item ''strength'' of Some (JNum s) \<Rightarrow> 0 \<le> s \<and> s \<le> 1 | _ \<Rightarrow> False) \<and>
      (case property item ''note_id'' of Some (JStr i) \<Rightarrow> True | _ \<Rightarrow> False) \<and>
      (case property item ''reasoning'' of Some (JStr r) \<Rightarrow> True | _ \<Rightarrow> False))"

definition string_field :: "json \<Rightarrow> string \<Rightarrow> string" where
  "string_field item k = (case property item k of Some (JStr v) \<Rightarrow> v | _ \<Rightarrow> [])"

definition number_field :: "json \<Rightarrow> string \<Rightarrow> real" where
  "number_field item k = (case property item k of Some (JNum v) \<Rightarrow> v | _ \<Rightarrow> 0)"

definition assessment_of :: "json \<Rightarrow> ConnectionAssessment" where
  "assessment_of item =
     \<lparr>label = string_field item ''label'', strength = number_field item ''strength'',
      note_id = string_field item ''note_id'',
      assessment_reasoning = string_field item ''reasoning''\<rparr>"

section \<open>\<^verbatim>\<open>tools/index.ts\<close>\<close>

definition clamp01 :: "real \<Rightarrow> real" where
  "clamp01 v = max 0 (min 1 v)"

text \<open>
  The chain \<^verbatim>\<open>candidates.filter(similarity >= t).slice(0, k).map(...)\<close> of both
  fallbacks, and their two fixed reasoning strings.
\<close>

definition similarity_edges ::
  "real \<Rightarrow> nat \<Rightarrow> string \<Rightarrow> SimilarNote list \<Rightarrow> ConnectionAssessment list" where
  "similarity_edges t k why candidates =
     map (\<lambda>candidate. \<lparr>label = ''related_to'', strength = clamp01 (similarity candidate),
                        note_id = id' candidate, assessment_reasoning = why\<rparr>)
         (take k (filter (\<lambda>candidate. similarity candidate \<ge> t) candidates))"

definition unavailable_reasoning :: string where
  "unavailable_reasoning =
     ''Fallback edge created from embedding similarity when LLM assessment was unavailable.''"

definition no_relationship_reasoning :: string where
  "no_relationship_reasoning =
     ''Auto-connected from high embedding similarity (no explicit LLM relationship found).''"

text \<open>
  The assessments and the warning after the inner \<^verbatim>\<open>try\<close>/\<^verbatim>\<open>catch\<close> and the test
  \<^verbatim>\<open>assessments.length === 0\<close> that follows it; \<open>assessed\<close> is what
  \<^verbatim>\<open>assessConnections\<close> returned or threw.
\<close>

definition choose_assessments ::
  "string + ConnectionAssessment list \<Rightarrow> SimilarNote list
     \<Rightarrow> ConnectionAssessment list \<times> string option" where
  "choose_assessments assessed candidates =
     (case (case assessed of
              Inr assessments \<Rightarrow> (assessments, None)
            | Inl assessmentErr \<Rightarrow>
                (similarity_edges 0.4 3 unavailable_reasoning candidates,
                 Some (''Note saved. LLM connection assessment failed, using similarity fallback: ''
                       @ assessmentErr))) of
        (assessments, warning') \<Rightarrow>
          (if length assessments = 0
           then similarity_edges 0.5 2 no_relationship_reasoning candidates
           else assessments,
           warning'))"

text \<open>The entry pushed on \<^verbatim>\<open>connectionsCreated\<close>; \<^verbatim>\<open>target?.title ?? null\<close> is its title.\<close>

definition created_connection :: "SimilarNote list \<Rightarrow> ConnectionAssessment \<Rightarrow> CreatedConnection" where
  "created_connection candidates assessment =
     \<lparr>label = label assessment, strength = strength assessment,
      created_target_id = note_id assessment,
      target_title = (case find (\<lambda>c. id' c = note_id assessment) candidates of
                        None \<Rightarrow> None | Some target \<Rightarrow> title target),
      created_reasoning = assessment_reasoning assessment\<rparr>"

text \<open>
  The loop over the assessments: \<open>i\<close> counts the upserts, \<open>created\<close> is
  \<^verbatim>\<open>connectionsCreated\<close> and \<open>failures\<close> is \<^verbatim>\<open>connectionInsertFailures\<close>.
\<close>

fun persist ::
  "World \<Rightarrow> uuid \<Rightarrow> SimilarNote list \<Rightarrow> nat \<Rightarrow> ConnectionAssessment list
     \<Rightarrow> db \<times> CreatedConnection list \<times> nat \<Rightarrow> db \<times> CreatedConnection list \<times> nat" where
  "persist w noteId candidates i [] acc = acc"
| "persist w noteId candidates i (assessment # rest) (d, created, failures) =
     (case insertConnection w i d noteId (note_id assessment) (label assessment)
             (strength assessment) (Some (assessment_reasoning assessment)) of
        Inl connectionErr \<Rightarrow>
          persist w noteId candidates (Suc i) rest (d, created, failures + 1)
      | Inr (d', row) \<Rightarrow>
          persist w noteId candidates (Suc i) rest
            (d', created @ [created_connection candidates assessment], failures))"

text \<open>
  The second \<^verbatim>\<open>try\<close> block of \<^verbatim>\<open>cortex_save_note\<close>: the database after it,
  \<^verbatim>\<open>connectionsCreated\<close>, \<^verbatim>\<open>connectionInsertFailures\<close> and \<^verbatim>\<open>warning\<close>.
  \<open>newNote\<close> is the object \<^verbatim>\<open>{ title: title ?? null, content, tags }\<close>.
\<close>

definition enrich ::
  "World \<Rightarrow> db \<Rightarrow> Note \<Rightarrow> string option \<times> string \<times> string list \<Rightarrow> real list
     \<Rightarrow> db \<times> CreatedConnection list \<times> nat \<times> string option" where
  "enrich w d note newNote embedding' =
     (case searchByEmbedding w d embedding' (AUTO_CONNECT_TOP_K w) None of
        Inl err \<Rightarrow>
          (d, [], 0,
           Some (''Note saved, but semantic connection analysis could not be completed: '' @ err))
      | Inr similar \<Rightarrow>
          (let candidates = filter (\<lambda>candidate. id' candidate \<noteq> id' note) similar
           in if length candidates > 0
              then
                (case choose_assessments (assessConnections w newNote candidates) candidates of
                   (assessments, warning') \<Rightarrow>
                     (case persist w (id' note) candidates 0 assessments (d, [], 0) of
                        (d', created, failures) \<Rightarrow> (d', created, failures, warning')))
              else (d, [], 0, None)))"

text \<open>\<^verbatim>\<open>String(n)\<close> of a natural number.\<close>

fun string_of_nat :: "nat \<Rightarrow> string" where
  "string_of_nat n =
     (if n < 10 then [''0123456789'' ! n]
      else string_of_nat (n div 10) @ [''0123456789'' ! (n mod 10)])"

text \<open>The warning after the count of failed upserts is added; an empty string is falsy.\<close>

definition final_warning :: "nat \<Rightarrow> string option \<Rightarrow> string option" where
  "final_warning connectionInsertFailures warning' =
     (if connectionInsertFailures > 0
      then
        (let failureMessage = ''Failed to persist '' @ string_of_nat connectionInsertFailures
                @ '' connection(s). Check server logs for details.''
         in case warning' of
              None \<Rightarrow> Some failureMessage
            | Some wn \<Rightarrow> if wn = [] then Some failureMessage
                         else Some (wn @ '' '' @ failureMessage))
      else warning')"

record SaveResult =
  saved_note :: Note
  connections :: "CreatedConnection list"
  warning :: "string option"
  message :: string

datatype ToolResult = ToolError string | ToolObject SaveResult

text \<open>
  \<^verbatim>\<open>cortex_save_note\<close>: the arguments are those the schema has parsed (\<^verbatim>\<open>tags\<close> and
  \<^verbatim>\<open>source\<close> have their defaults).  The result is the database after the request and the
  reply of the tool, \<^verbatim>\<open>error(...)\<close> or \<^verbatim>\<open>object(...)\<close>; \<open>saved_note\<close> is the inserted
  row, of which the reply shows the id, title, content, tags, source and creation time.
\<close>

definition textToEmbed :: "string option \<Rightarrow> string \<Rightarrow> string" where
  "textToEmbed title' content' =
     (case title' of
        None \<Rightarrow> content'
      | Some t \<Rightarrow> if t = [] then content' else t @ [CHR 0x0A] @ content')"

definition cortex_save_note ::
  "World \<Rightarrow> db \<Rightarrow> string option \<Rightarrow> string \<Rightarrow> string list \<Rightarrow> string \<Rightarrow> db \<times> ToolResult" where
  "cortex_save_note w d title' content' tags' source' =
     (case embed w (textToEmbed title' content') of
        Inl err \<Rightarrow> (d, ToolError (''Error saving note: '' @ err))
      | Inr embedding' \<Rightarrow>
         (case insertNote w d title' content' tags' source' embedding' of
            Inl err \<Rightarrow> (d, ToolError (''Error saving note: '' @ err))
          | Inr (d1, note) \<Rightarrow>
             (case enrich w d1 note (title', content', tags') embedding' of
                (d2, connectionsCreated, connectionInsertFailures, warning') \<Rightarrow>
                  (d2,
                   ToolObject
                     \<lparr>saved_note = note,
                      connections = connectionsCreated,
                      warning = final_warning connectionInsertFailures warning',
                      message =
                        (if length connectionsCreated > 0
                         then ''Saved note and created ''
                              @ string_of_nat (length connectionsCreated) @ '' connection(s).''
                         else ''Saved note. No strong connections found.'')\<rparr>))))"

text \<open>
  \<^verbatim>\<open>cortex_get_related\<close>: the root is looked up first; depth 1 is the direct query,
  any other depth the recursive one.  \<open>Inl\<close> is the reply \<^verbatim>\<open>error(...)\<close>.
\<close>

definition cortex_get_related :: "World \<Rightarrow> db \<Rightarrow> uuid \<Rightarrow> int \<Rightarrow> real \<Rightarrow> string + GraphNode list" where
  "cortex_get_related w d note_id' depth' min_strength =
     (case getNoteById w d note_id' of
        Inl err \<Rightarrow> Inl (''Error getting related notes: '' @ err)
      | Inr None \<Rightarrow> Inl (''Note '' @ note_id' @ '' not found.'')
      | Inr (Some rootNote) \<Rightarrow>
          (case (if depth' = 1 then getDirectConnections w d note_id' min_strength
                 else getDeepConnections w d note_id' depth' min_strength) of
             Inl err \<Rightarrow> Inl (''Error getting related notes: '' @ err)
           | Inr related \<Rightarrow> Inr related))"

section \<open>Two notes joined by an edge\<close>

text \<open>The edge \<open>c\<close> has \<open>a\<close> at one end and \<open>b\<close> at the other, in either direction.\<close>

definition joins :: "uuid \<Rightarrow> uuid \<Rightarrow> Connection \<Rightarrow> bool" where
  "joins a b c = ((source_id c = a \<and> target_id c = b) \<or> (target_id c = a \<and> source_id c = b))"

section \<open>Reachability\<close>

text \<open>
  What the specification calls reachable at depth \<open>k\<close>: the notes at the end of a walk of
  \<open>k\<close> edges of strength at least \<open>s\<close> from \<open>a\<close>, each edge followed in either
  direction to a note of the table.
\<close>

definition neighbours :: "db \<Rightarrow> real \<Rightarrow> uuid \<Rightarrow> uuid list" where
  "neighbours d s b =
     [id' n. c \<leftarrow> connections_tab d, strength c \<ge> s, n \<leftarrow> notes_tab d, joins b (id' n) c]"

fun reach :: "db \<Rightarrow> real \<Rightarrow> uuid \<Rightarrow> nat \<Rightarrow> uuid list" where
  "reach d s a 0 = [a]"
| "reach d s a (Suc k) = remdups (concat (map (neighbours d s) (reach d s a k)))"

text \<open>
  What a row of the table \<open>graph\<close> records: a depth of at least 1 and, beyond the first
  level, at most \<^verbatim>\<open>max_depth\<close>; the root only at depth 1; and the label and strength of
  an edge that joins the row's note to a note reachable in one step less.
\<close>

definition row_sound :: "db \<Rightarrow> uuid \<Rightarrow> int \<Rightarrow> real \<Rightarrow> GraphNode \<Rightarrow> bool" where
  "row_sound d root_id md s r =
     (1 \<le> depth r \<and> (depth r \<le> md \<or> depth r = 1) \<and> (id' r = root_id \<longrightarrow> depth r = 1) \<and>
      (\<exists>b c. b \<in> set (reach d s root_id (nat (depth r) - 1)) \<and> c \<in> set (connections_tab d) \<and>
             strength c \<ge> s \<and> joins b (id' r) c \<and> id' r \<in> set (map id' (notes_tab d)) \<and>
             connection_label r = label c \<and> connection_strength r = strength c))"

section \<open>Example data\<close>

text \<open>A note without an embedding and an edge, for the traversal examples.\<close>

definition a_note :: "uuid \<Rightarrow> Note" where
  "a_note i =
     \<lparr>id' = i, title = None, content = ''text'', tags = [], source = ''manual'',
      embedding = None, created_at = 0, updated_at = 0\<rparr>"

definition an_edge :: "uuid \<Rightarrow> uuid \<Rightarrow> string \<Rightarrow> real \<Rightarrow> Connection" where
  "an_edge a b l s =
     \<lparr>label = l, strength = s, edge_id = a @ ''-'' @ b @ ''-'' @ l, source_id = a,
      target_id = b, reasoning = None, edge_created_at = 0\<rparr>"

text \<open>The scenario of the specification: root--X of strength 0.6 and root--Y of strength 0.2.\<close>

definition scenario_direct :: db where
  "scenario_direct =
     \<lparr>notes_tab = [a_note ''root'', a_note ''X'', a_note ''Y''],
      connections_tab = [an_edge ''root'' ''X'' ''supports'' 0.6,
                         an_edge ''root'' ''Y'' ''related_to'' 0.2]\<rparr>"

text \<open>A table in which the root has an edge to itself, and one to \<open>P\<close>.\<close>

definition self_loop :: db where
  "self_loop =
     \<lparr>notes_tab = [a_note ''root'', a_note ''P''],
      connections_tab = [an_edge ''root'' ''root'' ''related_to'' 0.5,
                         an_edge ''root'' ''P'' ''supports'' 0.5]\<rparr>"

text \<open>Two edges between root and \<open>X\<close>, one in each direction, with equal label and strength.\<close>

definition mutual :: db where
  "mutual =
     \<lparr>notes_tab = [a_note ''root'', a_note ''X''],
      connections_tab = [an_edge ''root'' ''X'' ''supports'' 0.5,
                         an_edge ''X'' ''root'' ''supports'' 0.5]\<rparr>"

text \<open>Two edges from root to \<open>X\<close> with different labels.\<close>

definition two_labels :: db where
  "two_labels =
     \<lparr>notes_tab = [a_note ''root'', a_note ''X''],
      connections_tab = [an_edge ''root'' ''X'' ''supports'' 0.5,
                         an_edge ''root'' ''X'' ''expands_on'' 0.5]\<rparr>"

text \<open>
  Notes with unit vectors as embeddings; on unit vectors the cosine distance is one minus
  the inner product.  Against the query \<open>[1, 0]\<close> the similarities of \<open>A\<close>, \<open>B\<close>, \<open>C\<close>
  and \<open>D\<close> are 0.8, 0.6, 8/17 (between 0.4 and 0.5) and 0.28.
\<close>

definition unit_distance :: "real list \<Rightarrow> real list \<Rightarrow> real" where
  "unit_distance a b = 1 - sum_list (map2 (*) a b)"

definition embedded_note :: "uuid \<Rightarrow> real list \<Rightarrow> Note" where
  "embedded_note i e =
     \<lparr>id' = i, title = Some i, content = ''text'', tags = [], source = ''manual'',
      embedding = Some e, created_at = 1, updated_at = 1\<rparr>"

definition library :: db where
  "library =
     \<lparr>notes_tab = [embedded_note ''A'' [4/5, 3/5], embedded_note ''B'' [3/5, 4/5],
                   embedded_note ''C'' [8/17, 15/17], embedded_note ''D'' [7/25, 24/25]],
      connections_tab = []\<rparr>"

text \<open>
  A world with a configured chat provider whose reply is \<open>reply\<close>, and a database that
  answers the \<open>i\<close>-th upsert with \<open>ups i\<close>; the new note gets the id \<open>N\<close> and the
  embedding \<open>[1, 0]\<close>.
\<close>

definition world :: "string + json list \<Rightarrow> (nat \<Rightarrow> string + (uuid \<times> nat)) \<Rightarrow> World" where
  "world reply ups =
     \<lparr>supabase = True, SUPABASE_URL = None, SUPABASE_SERVICE_KEY = None,
      cosine_distance = unit_distance, match_notes_error = None, notes_select_error = None,
      note_lookup_error = None, get_connections_error = None,
      get_connections_deep_error = None, graph_notes_error = None,
      graph_edges_error = None,
      embed = (\<lambda>t. Inr [1, 0]), insert_note_reply = Inr (''N'', 2), client = False,
      OPENAI_API_KEY = Some ''key'', completion = reply, upsert_reply = ups,
      AUTO_CONNECT_TOP_K = 5\<rparr>"

definition stored :: "nat \<Rightarrow> string + (uuid \<times> nat)" where
  "stored i = Inr (''E'' @ string_of_nat i, 3)"

definition refused :: "nat \<Rightarrow> string + (uuid \<times> nat)" where
  "refused i = Inl ''connection reset''"

text \<open>A well-formed entry of a classifier reply.\<close>

definition entry :: "string \<Rightarrow> string \<Rightarrow> real \<Rightarrow> json" where
  "entry i l s =
     JObj [(''note_id'', JStr i), (''label'', JStr l), (''strength'', JNum s),
           (''reasoning'', JStr ''why'')]"

text \<open>Three notes of different age and three edges, for the interest graph.\<close>

definition dated_note :: "uuid \<Rightarrow> string list \<Rightarrow> nat \<Rightarrow> Note" where
  "dated_note i tg at' =
     \<lparr>id' = i, title = None, content = ''text'', tags = tg, source = ''manual'',
      embedding = None, created_at = at', updated_at = at'\<rparr>"

definition shelf :: db where
  "shelf =
     \<lparr>notes_tab = [dated_note ''C'' [''old''] 1, dated_note ''A'' [''new''] 3,
                   dated_note ''B'' [''new''] 2],
      connections_tab = [an_edge ''A'' ''B'' ''supports'' 0.9, an_edge ''A'' ''C'' ''supports'' 0.9,
                         an_edge ''B'' ''A'' ''related_to'' 0.1]\<rparr>"

text \<open>The empty database.\<close>

definition empty_db :: db where
  "empty_db = \<lparr>notes_tab = [], connections_tab = []\<rparr>"

text \<open>
  The traversal scenario of the specification: root--P and P--Q, and root--Q directly,
  all of strength 0.5; \<open>R\<close> hangs on \<open>Q\<close>, and \<open>S\<close> on \<open>R\<close>.
\<close>

definition scenario_deep :: db where
  "scenario_deep =
     \<lparr>notes_tab = [a_note ''root'', a_note ''P'', a_note ''Q'', a_note ''R'', a_note ''S''],
      connections_tab = [an_edge ''root'' ''P'' ''supports'' 0.5, an_edge ''P'' ''Q'' ''expands_on'' 0.5,
                         an_edge ''Q'' ''root'' ''related_to'' 0.5, an_edge ''R'' ''Q'' ''contradicts'' 0.5,
                         an_edge ''S'' ''R'' ''supports'' 0.5]\<rparr>"

text \<open>
  Saving the note \<open>text\<close> without title and tags: the note the database then holds, the
  library with it, and the three candidates the search finds for it.
\<close>

definition new_note :: Note where
  "new_note =
     \<lparr>id' = ''N'', title = None, content = ''text'', tags = [], source = ''manual'',
      embedding = Some [1, 0], created_at = 2, updated_at = 2\<rparr>"

definition library_with_new :: db where
  "library_with_new = library\<lparr>notes_tab := notes_tab library @ [new_note]\<rparr>"

definition candidates_ABC :: "SimilarNote list" where
  "candidates_ABC =
     [similar_note (embedded_note ''A'' [4/5, 3/5]) (4/5),
      similar_note (embedded_note ''B'' [3/5, 4/5]) (3/5),
      similar_note (embedded_note ''C'' [8/17, 15/17]) (8/17)]"

text \<open>A classifier reply with one valid entry, one unknown label and one strength above 1.\<close>

definition mixed_reply :: "json list" where
  "mixed_reply =
     [entry ''A'' ''supports'' 0.7, entry ''B'' ''bogus'' 0.5, entry ''C'' ''expands_on'' 1.5]"

section \<open>Properties\<close>

lemmas example_defs =
  a_note_def an_edge_def scenario_direct_def self_loop_def mutual_def two_labels_def
  unit_distance_def embedded_note_def library_def world_def stored_def refused_def entry_def
  dated_note_def shelf_def empty_db_def scenario_deep_def new_note_def library_with_new_def
  candidates_ABC_def mixed_reply_def

lemmas direct_defs =
  get_connections_def outgoing_rows_def incoming_rows_def graph_node_def joins_def

lemmas deep_defs =
  get_connections_deep_def graph_def distinct_on_id_def recursive_term_def
  outgoing_rows_def incoming_rows_def graph_node_def Let_def

lemmas save_defs =
  cortex_save_note_def textToEmbed_def insertNote_def enrich_def searchByEmbedding_def
  match_notes_def similar_note_def assessConnections_def getOpenAI_def choose_assessments_def
  similarity_edges_def clamp01_def insertConnection_def upsert_def same_triple_def
  VALID_LABELS_def created_connection_def final_warning_def is_assessment_def getSupabase_def
  Let_def

subsection \<open>Direct connections\<close>

lemma in_outgoing_rows:
  "r \<in> set (outgoing_rows d root_id s) \<longleftrightarrow>
     (\<exists>c n. c \<in> set (connections_tab d) \<and> n \<in> set (notes_tab d) \<and> id' n = target_id c \<and>
            source_id c = root_id \<and> strength c \<ge> s \<and> r = graph_node n 1 c)"
  by (auto simp: outgoing_rows_def)

lemma in_incoming_rows:
  "r \<in> set (incoming_rows d root_id s) \<longleftrightarrow>
     (\<exists>c n. c \<in> set (connections_tab d) \<and> n \<in> set (notes_tab d) \<and> id' n = source_id c \<and>
            target_id c = root_id \<and> strength c \<ge> s \<and> r = graph_node n 1 c)"
  by (auto simp: incoming_rows_def)

lemma in_get_connections:
  "r \<in> set (get_connections d root_id s) \<longleftrightarrow>
     (\<exists>c n. c \<in> set (connections_tab d) \<and> n \<in> set (notes_tab d) \<and> joins root_id (id' n) c \<and>
            strength c \<ge> s \<and> r = graph_node n 1 c)"
proof
  assume "r \<in> set (get_connections d root_id s)"
  then consider "r \<in> set (outgoing_rows d root_id s)" | "r \<in> set (incoming_rows d root_id s)"
    by (auto simp: get_connections_def)
  then show "\<exists>c n. c \<in> set (connections_tab d) \<and> n \<in> set (notes_tab d) \<and> joins root_id (id' n) c \<and>
            strength c \<ge> s \<and> r = graph_node n 1 c"
  proof cases
    case 1
    then obtain c n where "c \<in> set (connections_tab d)" "n \<in> set (notes_tab d)"
        "id' n = target_id c" "source_id c = root_id" "strength c \<ge> s" "r = graph_node n 1 c"
      unfolding in_outgoing_rows by blast
    then show ?thesis
      by (intro exI [of _ c] exI [of _ n]) (simp add: joins_def)
  next
    case 2
    then obtain c n where "c \<in> set (connections_tab d)" "n \<in> set (notes_tab d)"
        "id' n = source_id c" "target_id c = root_id" "strength c \<ge> s" "r = graph_node n 1 c"
      unfolding in_incoming_rows by blast
    then show ?thesis
      by (intro exI [of _ c] exI [of _ n]) (simp add: joins_def)
  qed
next
  assume "\<exists>c n. c \<in> set (connections_tab d) \<and> n \<in> set (notes_tab d) \<and> joins root_id (id' n) c \<and>
            strength c \<ge> s \<and> r = graph_node n 1 c"
  then obtain c n where cn: "c \<in> set (connections_tab d)" "n \<in> set (notes_tab d)"
      "joins root_id (id' n) c" "strength c \<ge> s" "r = graph_node n 1 c"
    by blast
  from cn(3) consider "source_id c = root_id \<and> id' n = target_id c"
    | "target_id c = root_id \<and> id' n = source_id c"
    by (auto simp: joins_def)
  then have "r \<in> set (outgoing_rows d root_id s) \<or> r \<in> set (incoming_rows d root_id s)"
  proof cases
    case 1
    with cn have "r \<in> set (outgoing_rows d root_id s)"
      unfolding in_outgoing_rows by blast
    then show ?thesis ..
  next
    case 2
    with cn have "r \<in> set (incoming_rows d root_id s)"
      unfolding in_incoming_rows by blast
    then show ?thesis ..
  qed
  then show "r \<in> set (get_connections d root_id s)"
    by (auto simp: get_connections_def)
qed

lemma graph_node_simps [simp]:
  "id' (graph_node n k c) = id' n" "depth (graph_node n k c) = k"
  "connection_label (graph_node n k c) = label c" "connection_strength (graph_node n k c) = strength c"
  by (simp_all add: graph_node_def)

text \<open>
  Every row of \<^verbatim>\<open>get_connections\<close> comes from one edge that has the root at one end and
  the row's note at the other, of strength at least \<open>s\<close>, and is reported at depth 1 with
  that edge's label and strength.  The row is the root itself only if that edge joins the
  root to itself.
\<close>

lemma direct_connections_sound:
  assumes "r \<in> set (get_connections d root_id s)"
  shows "depth r = 1 \<and> connection_strength r \<ge> s \<and>
         (\<exists>c. c \<in> set (connections_tab d) \<and> joins root_id (id' r) c \<and> strength c \<ge> s \<and>
              connection_label r = label c \<and> connection_strength r = strength c \<and>
              (id' r = root_id \<longrightarrow> source_id c = root_id \<and> target_id c = root_id))"
proof -
  from assms obtain c n where cn: "c \<in> set (connections_tab d)" "joins root_id (id' n) c"
      "strength c \<ge> s" "r = graph_node n 1 c"
    unfolding in_get_connections by blast
  have "id' r = root_id \<longrightarrow> source_id c = root_id \<and> target_id c = root_id"
    using cn(2,4) by (auto simp: joins_def)
  with cn show ?thesis by auto
qed

text \<open>The scenario of the specification: of \<open>X\<close> (0.6) and \<open>Y\<close> (0.2) only \<open>X\<close> is returned.\<close>

lemma direct_scenario: "map id' (get_connections scenario_direct ''root'' 0.3) = [''X'']"
  by (simp add: direct_defs example_defs)

text \<open>
  Claim C5: every result of \<^verbatim>\<open>directConnections(root, s)\<close> is a note distinct from the
  root, reached by a single edge of strength at least \<open>s\<close> with the root at one end.
  The edge and its strength are as claimed (\<open>direct_connections_sound\<close>), but neither arm
  of \<^verbatim>\<open>get_connections\<close> excludes the root: with an edge from the root to itself in the
  table, the root is returned as its own direct connection.
\<close>

theorem direct_connections_return_root:
  "map (\<lambda>r. (id' r, depth r, connection_label r, connection_strength r))
       (get_connections self_loop ''root'' 0.3) =
   [(''P'', 1, ''supports'', 1/2), (''root'', 1, ''related_to'', 1/2)]"
  by (simp add: direct_defs example_defs)

lemma graph_node_eq_iff:
  "graph_node n k c = graph_node n k c' \<longleftrightarrow> label c = label c' \<and> strength c = strength c'"
  by (auto simp: graph_node_def)

lemma rows_of_note:
  assumes "distinct (map id' (notes_tab d))" "n \<in> set (notes_tab d)"
  shows "{r \<in> set (get_connections d root_id s). id' r = id' n} =
         (\<lambda>c. graph_node n 1 c) ` {c \<in> set (connections_tab d). joins root_id (id' n) c \<and> strength c \<ge> s}"
proof -
  have eq: "m = n" if "m \<in> set (notes_tab d)" "id' m = id' n" for m
    using assms that by (meson distinct_map inj_onD)
  show ?thesis
    unfolding in_get_connections
    apply (auto simp: assms(2))
    using eq apply force
    using assms(2) by blast
qed

text \<open>
  Claim C6, as amended: \<^verbatim>\<open>get_connections\<close> does not deduplicate by note id, but its
  \<^verbatim>\<open>union\<close> removes equal rows.  A note joined to the root by several qualifying edges
  appears once per distinct pair of label and strength among those edges: two edges that
  differ in label or strength give two rows, two edges with the same label and strength
  (one in each direction) give one.
\<close>

theorem direct_connections_per_pair:
  assumes "distinct (map id' (notes_tab d))" and "n \<in> set (notes_tab d)"
  shows "length (filter (\<lambda>r. id' r = id' n) (get_connections d root_id s)) =
         length (remdups (map (\<lambda>c. (label c, strength c))
                   (filter (\<lambda>c. joins root_id (id' n) c \<and> strength c \<ge> s) (connections_tab d))))"
proof -
  let ?E = "{c \<in> set (connections_tab d). joins root_id (id' n) c \<and> strength c \<ge> s}"
  have d: "distinct (filter (\<lambda>r. id' r = id' n) (get_connections d root_id s))"
    by (simp add: get_connections_def)
  have "length (filter (\<lambda>r. id' r = id' n) (get_connections d root_id s)) =
        card (set (filter (\<lambda>r. id' r = id' n) (get_connections d root_id s)))"
    by (rule distinct_card [OF d, symmetric])
  also have "set (filter (\<lambda>r. id' r = id' n) (get_connections d root_id s)) =
        {r \<in> set (get_connections d root_id s). id' r = id' n}"
    by auto
  also have "\<dots> = (\<lambda>c. graph_node n 1 c) ` ?E"
    by (rule rows_of_note [OF assms])
  also have "card \<dots> = card ((\<lambda>c. (label c, strength c)) ` ?E)"
  proof (rule bij_betw_same_card [where f = "\<lambda>r. (connection_label r, connection_strength r)"])
    show "bij_betw (\<lambda>r. (connection_label r, connection_strength r))
            ((\<lambda>c. graph_node n 1 c) ` ?E) ((\<lambda>c. (label c, strength c)) ` ?E)"
      unfolding bij_betw_def
    proof
      show "inj_on (\<lambda>r. (connection_label r, connection_strength r)) ((\<lambda>c. graph_node n 1 c) ` ?E)"
        by (rule inj_onI) (auto simp: graph_node_eq_iff)
      show "(\<lambda>r. (connection_label r, connection_strength r)) ` (\<lambda>c. graph_node n 1 c) ` ?E
            = (\<lambda>c. (label c, strength c)) ` ?E"
        by (auto simp: image_iff)
    qed
  qed
  also have "\<dots> = length (remdups (map (\<lambda>c. (label c, strength c))
                   (filter (\<lambda>c. joins root_id (id' n) c \<and> strength c \<ge> s) (connections_tab d))))"
    by (simp add: length_remdups_card_conv)
  finally show ?thesis .
qed

text \<open>Two edges from root to \<open>X\<close> with different labels: \<open>X\<close> is returned twice.\<close>

theorem direct_connections_per_pair_witness:
  "distinct (map id' (notes_tab two_labels)) \<and> a_note ''X'' \<in> set (notes_tab two_labels) \<and>
   length (filter (\<lambda>r. id' r = ''X'') (get_connections two_labels ''root'' 0.3)) = 2 \<and>
   map (\<lambda>c. (label c, strength c))
       (filter (\<lambda>c. joins ''root'' ''X'' c \<and> strength c \<ge> 0.3) (connections_tab two_labels)) =
     [(''supports'', 1/2), (''expands_on'', 1/2)]"
  using direct_connections_per_pair [of two_labels "a_note ''X''" "''root''" "0.3"]
  by (simp add: example_defs joins_def)

text \<open>
  The claim as stated fails: \<open>X\<close> is joined to the root by two distinct edges of strength
  0.5, one in each direction and both labelled \<^verbatim>\<open>supports\<close>, and appears once.
\<close>

theorem direct_connections_union_collapses:
  "distinct (connections_tab mutual) \<and>
   length (filter (\<lambda>c. joins ''root'' ''X'' c \<and> strength c \<ge> 0.3) (connections_tab mutual)) = 2 \<and>
   length (filter (\<lambda>r. id' r = ''X'') (get_connections mutual ''root'' 0.3)) = 1"
  by (simp add: direct_defs example_defs)

subsection \<open>The interest graph\<close>

text \<open>
  Claim C7: every edge \<^verbatim>\<open>getInterestGraph\<close> returns is a stored edge with both ends
  among the returned nodes and strength at least \<open>s\<close>, the nodes being the selected ones;
  and when no note is selected the result is the empty node list with the empty edge list,
  not an error (the edge query is not even made).
\<close>

theorem interest_graph_induced:
  "(getInterestGraph w d limit s tag = Inr (nodes, edges) \<longrightarrow>
      nodes = selected_notes d limit tag \<and>
      (\<forall>e\<in>set edges. e \<in> set (connections_tab d) \<and> source_id e \<in> set (map id' nodes) \<and>
                      target_id e \<in> set (map id' nodes) \<and> strength e \<ge> s)) \<and>
   (getSupabase w' = Inr () \<and> graph_notes_error w' = None \<and> selected_notes d' limit' tag' = [] \<longrightarrow>
      getInterestGraph w' d' limit' s' tag' = Inr ([], []))"
  by (auto simp: getInterestGraph_def Let_def split: option.splits if_splits sum.splits)

text \<open>
  With a window of two notes the strong edge from \<open>A\<close> to \<open>C\<close> is dropped, \<open>C\<close> being
  outside the window, and the weak edge from \<open>B\<close> to \<open>A\<close> as well.  No note has the tag
  \<open>none\<close>, and the result is empty even where the query for the edges would fail.
\<close>

theorem interest_graph_induced_witness:
  "getInterestGraph (world (Inr []) stored) shelf 2 0.3 None =
     Inr ([interest_node (dated_note ''A'' [''new''] 3), interest_node (dated_note ''B'' [''new''] 2)],
          [an_edge ''A'' ''B'' ''supports'' 0.9]) \<and>
   an_edge ''A'' ''C'' ''supports'' 0.9 \<in> set (connections_tab shelf) \<and>
   selected_notes shelf 2 (Some ''none'') = [] \<and>
   getInterestGraph ((world (Inr []) stored)\<lparr>graph_edges_error := Some ''unreachable''\<rparr>)
       shelf 2 0.3 (Some ''none'') = Inr ([], [])"
  using interest_graph_induced [of "world (Inr []) stored" shelf 2 "0.3" None
      "[interest_node (dated_note ''A'' [''new''] 3), interest_node (dated_note ''B'' [''new''] 2)]"
      "[an_edge ''A'' ''B'' ''supports'' 0.9]"
      "(world (Inr []) stored)\<lparr>graph_edges_error := Some ''unreachable''\<rparr>"
      shelf 2 "Some ''none''" "0.3"]
  by (simp add: getInterestGraph_def getSupabase_def selected_notes_def interest_node_def
      example_defs)

subsection \<open>Semantic search\<close>

lemma match_notes_above:
  assumes "r \<in> set (match_notes cd d q t k ft)"
  shows "similarity r > t"
proof -
  let ?rows = "[(cd e q, n). n \<leftarrow> notes_tab d,
                e \<leftarrow> (case embedding n of None \<Rightarrow> [] | Some e \<Rightarrow> [e]),
                1 - cd e q > t \<and> (case ft of None \<Rightarrow> True | Some ft \<Rightarrow> set ft \<subseteq> set (tags n))]"
  from assms have "r \<in> set (map (\<lambda>(x, n). similar_note n (1 - x)) (sort_key fst ?rows))"
    unfolding match_notes_def by (blast dest: in_set_takeD)
  then obtain x n where xn: "(x, n) \<in> set ?rows" "r = similar_note n (1 - x)"
    by auto
  from xn(1) have "1 - x > t"
    by (auto split: option.splits)
  with xn(2) show ?thesis
    by (simp add: similar_note_def)
qed

lemma match_notes_ids:
  assumes "r \<in> set (match_notes cd d q t k ft)"
  shows "id' r \<in> set (map id' (notes_tab d))"
proof -
  let ?rows = "[(cd e q, n). n \<leftarrow> notes_tab d,
                e \<leftarrow> (case embedding n of None \<Rightarrow> [] | Some e \<Rightarrow> [e]),
                1 - cd e q > t \<and> (case ft of None \<Rightarrow> True | Some ft \<Rightarrow> set ft \<subseteq> set (tags n))]"
  from assms have "r \<in> set (map (\<lambda>(x, n). similar_note n (1 - x)) (sort_key fst ?rows))"
    unfolding match_notes_def by (blast dest: in_set_takeD)
  then obtain x n where xn: "(x, n) \<in> set ?rows" "r = similar_note n (1 - x)"
    by auto
  from xn(1) have "n \<in> set (notes_tab d)"
    by auto
  with xn(2) show ?thesis
    by (auto simp: similar_note_def)
qed

lemma search_ids:
  assumes "searchByEmbedding w d q limit tags' = Inr rows" "r \<in> set rows"
  shows "id' r \<in> set (map id' (notes_tab d))"
proof (cases "match_notes_error w")
  case None
  with assms(1) have "rows = match_notes (cosine_distance w) d q 0.3 limit
      (case tags' of None \<Rightarrow> None | Some ts \<Rightarrow> if length ts > 0 then Some ts else None)"
    by (simp add: searchByEmbedding_def Let_def split: sum.splits)
  with assms(2) show ?thesis
    using match_notes_ids by blast
next
  case (Some msg)
  with assms show ?thesis
    by (auto simp: searchByEmbedding_def Let_def similar_note_def
        split: if_splits option.splits sum.splits dest!: in_set_takeD)
qed

text \<open>
  Claim C10: \<^verbatim>\<open>searchByEmbedding\<close> passes the fixed threshold 0.3 to \<^verbatim>\<open>match_notes\<close>
  and filters by it in its fallback, so whatever the limit and the tag filter every row it
  returns has a similarity strictly above 0.3; the candidates of a save are therefore above
  0.3 before the thresholds 0.4 and 0.5 are applied.
\<close>

theorem search_similarity_floor:
  assumes "searchByEmbedding w d q limit tags' = Inr rows"
  shows "\<forall>r\<in>set rows. similarity r > 0.3"
proof (cases "match_notes_error w")
  case None
  with assms have "rows = match_notes (cosine_distance w) d q 0.3 limit
      (case tags' of None \<Rightarrow> None | Some ts \<Rightarrow> if length ts > 0 then Some ts else None)"
    by (simp add: searchByEmbedding_def Let_def split: sum.splits)
  then show ?thesis
    using match_notes_above by blast
next
  case (Some msg)
  show ?thesis
  proof
    fix r assume r: "r \<in> set rows"
    from assms Some r show "similarity r > 0.3"
      by (auto simp: searchByEmbedding_def Let_def
          split: if_splits option.splits sum.splits dest!: in_set_takeD)
  qed
qed

text \<open>
  Of the four notes of the library, \<open>D\<close> has similarity 0.28 and is not returned although
  the limit is 5.
\<close>

theorem search_similarity_floor_witness:
  "searchByEmbedding (world (Inr []) stored) library [1, 0] 5 None = Inr candidates_ABC \<and>
   map similarity candidates_ABC = [4/5, 3/5, 8/17] \<and>
   list_all (\<lambda>r. similarity r > 0.3) candidates_ABC \<and>
   length (notes_tab library) = 4"
  using search_similarity_floor [of "world (Inr []) stored" library "[1, 0]" 5 None candidates_ABC]
  by (simp add: save_defs example_defs)

subsection \<open>The classifier\<close>

lemma clamp01_range: "0 \<le> clamp01 v \<and> clamp01 v \<le> 1"
  by (simp add: clamp01_def)

lemma similarity_edges_member:
  assumes "a \<in> set (similarity_edges t k why cs)"
  shows "label a = ''related_to'' \<and> assessment_reasoning a = why \<and>
         (\<exists>c\<in>set cs. similarity c \<ge> t \<and> note_id a = id' c \<and> strength a = clamp01 (similarity c))"
proof -
  from assms obtain c where c: "c \<in> set (take k (filter (\<lambda>c. similarity c \<ge> t) cs))"
    and a: "a = \<lparr>label = ''related_to'', strength = clamp01 (similarity c),
                        note_id = id' c, assessment_reasoning = why\<rparr>"
    unfolding similarity_edges_def by auto
  from c have "c \<in> set cs" "similarity c \<ge> t"
    by (auto dest: in_set_takeD)
  with a show ?thesis by auto
qed

lemma similarity_edges_length: "length (similarity_edges t k why cs) \<le> k"
  by (simp add: similarity_edges_def)

lemma similarity_edges_targets:
  "map (\<lambda>a. (note_id a, label a, strength a)) (similarity_edges t k why cs) =
   map (\<lambda>c. (id' c, ''related_to'', clamp01 (similarity c)))
       (take k (filter (\<lambda>c. similarity c \<ge> t) cs))"
  by (simp add: similarity_edges_def)

lemma is_assessment_range:
  assumes "is_assessment item = Inr (Some a)"
  shows "0 \<le> strength a \<and> strength a \<le> 1 \<and> label a \<in> set VALID_LABELS"
  using assms unfolding is_assessment_def
  by (auto split: json.splits option.splits if_splits)

lemma filter_assessments_range:
  assumes "filter_assessments items = Inr as" "a \<in> set as"
  shows "0 \<le> strength a \<and> strength a \<le> 1 \<and> label a \<in> set VALID_LABELS"
  using assms
proof (induction items arbitrary: as)
  case Nil
  then show ?case by simp
next
  case (Cons item items)
  from Cons.prems(1) obtain keep rest where k: "is_assessment item = Inr keep"
    and r: "filter_assessments items = Inr rest"
    and as: "as = (case keep of None \<Rightarrow> rest | Some b \<Rightarrow> b # rest)"
    by (auto split: sum.splits)
  show ?case
  proof (cases keep)
    case None
    with as Cons.prems(2) Cons.IH [OF r] show ?thesis by simp
  next
    case (Some b)
    with as Cons.prems(2) have "a = b \<or> a \<in> set rest" by simp
    then show ?thesis
    proof
      assume "a = b"
      with k Some show ?thesis using is_assessment_range by blast
    next
      assume "a \<in> set rest"
      with Cons.IH [OF r] show ?thesis by blast
    qed
  qed
qed

lemma assessConnections_never_throws: "\<exists>as. assessConnections w newNote cs = Inr as"
  by (simp add: assessConnections_def split: sum.splits)

lemma assessConnections_range:
  assumes "assessConnections w newNote cs = Inr as" "a \<in> set as"
  shows "0 \<le> strength a \<and> strength a \<le> 1 \<and> label a \<in> set VALID_LABELS"
proof -
  from assms have "\<exists>items. filter_assessments items = Inr as"
    by (auto simp: assessConnections_def split: if_splits sum.splits)
  with assms(2) show ?thesis
    using filter_assessments_range by blast
qed

lemma related_to_valid: "''related_to'' \<in> set VALID_LABELS"
  by (simp add: VALID_LABELS_def)

lemma choose_assessments_range:
  assumes "a \<in> set (fst (choose_assessments assessed cs))"
    and "\<And>as b. assessed = Inr as \<Longrightarrow> b \<in> set as \<Longrightarrow> 0 \<le> strength b \<and> strength b \<le> 1 \<and> label b \<in> set VALID_LABELS"
  shows "0 \<le> strength a \<and> strength a \<le> 1 \<and> label a \<in> set VALID_LABELS"
proof -
  consider (fallback) t k why where "a \<in> set (similarity_edges t k why cs)"
    | (model) as where "assessed = Inr as" "a \<in> set as"
    using assms(1) unfolding choose_assessments_def
    by (auto split: sum.splits if_splits)
  then show ?thesis
  proof cases
    case fallback
    from similarity_edges_member [OF fallback] show ?thesis
      using clamp01_range related_to_valid by auto
  next
    case model
    then show ?thesis using assms(2) by blast
  qed
qed

lemma is_assessment_passes:
  assumes "item \<noteq> JNull"
  shows "is_assessment item = Inr (if passes_validation item then Some (assessment_of item) else None)"
proof (cases item)
  case (JObj kvs)
  show ?thesis
    unfolding is_assessment_def passes_validation_def assessment_of_def string_field_def
      number_field_def JObj
    by (simp split: option.splits json.splits)
qed (use assms in \<open>simp_all add: is_assessment_def passes_validation_def\<close>)

lemma filter_assessments_exact:
  assumes "JNull \<notin> set raw"
  shows "filter_assessments raw = Inr (map assessment_of (filter passes_validation raw))"
  using assms
proof (induction raw)
  case Nil
  then show ?case by simp
next
  case (Cons item raw)
  then have "item \<noteq> JNull" "JNull \<notin> set raw" by auto
  with Cons.IH is_assessment_passes [of item] show ?case by simp
qed

lemma filter_assessments_null:
  assumes "JNull \<in> set raw"
  shows "\<exists>err. filter_assessments raw = Inl err"
  using assms
proof (induction raw)
  case Nil
  then show ?case by simp
next
  case (Cons item raw)
  show ?case
  proof (cases "item = JNull")
    case True
    then show ?thesis by (simp add: is_assessment_def)
  next
    case False
    with Cons have "\<exists>err. filter_assessments raw = Inl err" by auto
    with is_assessment_passes [OF False] show ?thesis by auto
  qed
qed

lemma assessConnections_exact:
  assumes "getOpenAI w" "cs \<noteq> []" "completion w = Inr raw" "JNull \<notin> set raw"
  shows "assessConnections w newNote cs = Inr (map assessment_of (filter passes_validation raw))"
  using assms filter_assessments_exact [OF assms(4)]
  by (simp add: assessConnections_def)

lemma assessConnections_null:
  assumes "completion w = Inr raw" "JNull \<in> set raw"
  shows "assessConnections w newNote cs = Inr []"
  using assms(1) filter_assessments_null [OF assms(2)]
  by (auto simp: assessConnections_def)

text \<open>
  Claim C9: an entry with a label outside the enumeration, a strength outside \<open>[0,1]\<close>
  or a \<^verbatim>\<open>note_id\<close> or \<^verbatim>\<open>reasoning\<close> that is not a string is dropped, and the operation
  returns exactly the entries that pass.  That holds for a reply without a \<^verbatim>\<open>null\<close>
  entry (\<open>assessConnections_exact\<close>).  On a \<^verbatim>\<open>null\<close> entry the callback of the filter
  throws, the surrounding \<^verbatim>\<open>catch\<close> answers \<open>[]\<close>, and the valid entries are lost with it.
\<close>

theorem null_entry_drops_all:
  "filter passes_validation [entry ''A'' ''supports'' 0.5, JNull] = [entry ''A'' ''supports'' 0.5] \<and>
   assessConnections (world (Inr [entry ''A'' ''supports'' 0.5, JNull]) stored)
       (None, ''text'', []) candidates_ABC = Inr [] \<and>
   assessConnections (world (Inr [entry ''A'' ''supports'' 0.5]) stored)
       (None, ''text'', []) candidates_ABC = Inr [assessment_of (entry ''A'' ''supports'' 0.5)]"
  by (simp add: save_defs example_defs passes_validation_def assessment_of_def
      string_field_def number_field_def)

text \<open>The entry that passes validation is not among the result.\<close>

theorem null_entry_drops_all_witness:
  "assessment_of (entry ''A'' ''supports'' 0.5) \<notin>
     set (projr (assessConnections (world (Inr [entry ''A'' ''supports'' 0.5, JNull]) stored)
            (None, ''text'', []) candidates_ABC))"
  using null_entry_drops_all by simp

subsection \<open>Saving a note\<close>

lemma insertConnection_notes:
  assumes "insertConnection w i d s t l x r = Inr (d', row)"
  shows "notes_tab d' = notes_tab d"
  using assms unfolding insertConnection_def
  by (auto split: sum.splits if_splits prod.splits)

lemma insertConnection_succeeds:
  assumes "getSupabase w = Inr ()" "upsert_reply w i = Inr p"
    "s \<in> set (map id' (notes_tab d))" "t \<in> set (map id' (notes_tab d))"
    "l \<in> set VALID_LABELS" "0 \<le> x" "x \<le> 1"
  shows "\<exists>d' row. insertConnection w i d s t l x r = Inr (d', row)"
  using assms unfolding insertConnection_def
  by (cases p) (auto split: prod.splits)

lemma persist_created:
  assumes "persist w src cs i as (d, created, failures) = (d', created', failures')"
  shows "\<exists>new. created' = created @ new \<and> length new + failures' = length as + failures \<and>
           set new \<subseteq> created_connection cs ` set as"
  using assms
proof (induction as arbitrary: i d created failures)
  case Nil
  then show ?case by simp
next
  case (Cons a as)
  show ?case
  proof (cases "insertConnection w i d src (note_id a) (label a) (strength a)
                  (Some (assessment_reasoning a))")
    case (Inl err)
    with Cons.prems have "persist w src cs (Suc i) as (d, created, failures + 1) = (d', created', failures')"
      by simp
    from Cons.IH [OF this] show ?thesis by auto
  next
    case (Inr p)
    obtain d1 row where p: "p = (d1, row)" by (cases p)
    with Inr Cons.prems have "persist w src cs (Suc i) as
        (d1, created @ [created_connection cs a], failures) = (d', created', failures')"
      by simp
    from Cons.IH [OF this] obtain new where
      "created' = (created @ [created_connection cs a]) @ new"
      "length new + failures' = length as + failures"
      "set new \<subseteq> created_connection cs ` set as"
      by blast
    then show ?thesis
      by (intro exI [of _ "created_connection cs a # new"]) auto
  qed
qed

lemma persist_all_succeed:
  assumes "\<And>j. \<exists>p. upsert_reply w j = Inr p" and "getSupabase w = Inr ()"
    and "src \<in> set (map id' (notes_tab d))"
    and "\<And>a. a \<in> set as \<Longrightarrow> note_id a \<in> set (map id' (notes_tab d)) \<and>
            label a \<in> set VALID_LABELS \<and> 0 \<le> strength a \<and> strength a \<le> 1"
  shows "\<exists>d'. persist w src cs i as (d, created, failures)
            = (d', created @ map (created_connection cs) as, failures)"
  using assms(3,4)
proof (induction as arbitrary: i d created)
  case Nil
  then show ?case by simp
next
  case (Cons a as)
  from assms(1) obtain p where p: "upsert_reply w i = Inr p" by blast
  have a: "note_id a \<in> set (map id' (notes_tab d))" "label a \<in> set VALID_LABELS"
      "0 \<le> strength a" "strength a \<le> 1"
    using Cons.prems(2) [of a] by simp_all
  from insertConnection_succeeds [OF assms(2) p Cons.prems(1) a]
  obtain d1 row where ins: "insertConnection w i d src (note_id a) (label a)
      (strength a) (Some (assessment_reasoning a)) = Inr (d1, row)"
    by blast
  have n: "notes_tab d1 = notes_tab d"
    by (rule insertConnection_notes [OF ins])
  have "\<exists>d'. persist w src cs (Suc i) as (d1, created @ [created_connection cs a], failures)
            = (d', (created @ [created_connection cs a]) @ map (created_connection cs) as, failures)"
    by (rule Cons.IH) (use Cons.prems n in auto)
  with ins show ?case by simp
qed

lemma created_connection_simps [simp]:
  "label (created_connection cs a) = label a"
  "strength (created_connection cs a) = strength a"
  "created_target_id (created_connection cs a) = note_id a"
  "created_reasoning (created_connection cs a) = assessment_reasoning a"
  by (simp_all add: created_connection_def)

lemma insertNote_result:
  assumes "insertNote w d t c tg src emb = Inr (d1, note)"
  shows "note \<in> set (notes_tab d1) \<and> title note = t \<and> content note = c \<and> tags note = tg \<and>
         connections_tab d1 = connections_tab d \<and> getSupabase w = Inr ()"
  using assms unfolding insertNote_def
  by (auto split: sum.splits prod.splits if_splits simp: Let_def)

lemma enrich_no_candidates:
  assumes "searchByEmbedding w d emb (AUTO_CONNECT_TOP_K w) None = Inr similar"
    and "filter (\<lambda>c. id' c \<noteq> id' note) similar = []"
  shows "enrich w d note newNote emb = (d, [], 0, None)"
  using assms by (simp add: enrich_def)

lemma enrich_candidates:
  assumes "searchByEmbedding w d emb (AUTO_CONNECT_TOP_K w) None = Inr similar"
    and "filter (\<lambda>c. id' c \<noteq> id' note) similar = cs" "cs \<noteq> []"
    and "choose_assessments (assessConnections w newNote cs) cs = (as, wn)"
    and "persist w (id' note) cs 0 as (d, [], 0) = (d', created, failures)"
  shows "enrich w d note newNote emb = (d', created, failures, wn)"
  using assms by (simp add: enrich_def Let_def)

lemma save_result:
  assumes "embed w (textToEmbed t c) = Inr emb"
    and "insertNote w d t c tg src emb = Inr (d1, note)"
    and "enrich w d1 note (t, c, tg) emb = (d2, created, failures, wn)"
  shows "\<exists>r. cortex_save_note w d t c tg src = (d2, ToolObject r) \<and> saved_note r = note \<and>
             connections r = created \<and> warning r = final_warning failures wn"
  using assms by (simp add: cortex_save_note_def)

lemma upsert_bound:
  assumes "upsert rows new = (rows', row)" "\<forall>c\<in>set rows. 0 \<le> strength c \<and> strength c \<le> 1"
    "0 \<le> strength new" "strength new \<le> 1"
  shows "\<forall>c\<in>set rows'. 0 \<le> strength c \<and> strength c \<le> 1"
  using assms unfolding upsert_def
  by (auto split: option.splits simp: Let_def)

lemma insertConnection_bound:
  assumes "insertConnection w i d s t l x r = Inr (d', row)"
    "\<forall>c\<in>set (connections_tab d). 0 \<le> strength c \<and> strength c \<le> 1"
  shows "\<forall>c\<in>set (connections_tab d'). 0 \<le> strength c \<and> strength c \<le> 1"
proof -
  from assms(1) obtain fresh now rows where
    x: "0 \<le> x" "x \<le> 1" and
    u: "upsert (connections_tab d) \<lparr>label = l, strength = x, edge_id = fresh,
                     source_id = s, target_id = t, reasoning = r,
                     edge_created_at = now\<rparr> = (rows, row)" and
    d': "d' = d\<lparr>connections_tab := rows\<rparr>"
    unfolding insertConnection_def
    by (auto split: sum.splits if_splits prod.splits)
  from upsert_bound [OF u assms(2)] x d' show ?thesis by simp
qed

lemma persist_bound:
  assumes "persist w src cs i as (d, created, failures) = (d', created', failures')"
    "\<forall>c\<in>set (connections_tab d). 0 \<le> strength c \<and> strength c \<le> 1"
  shows "\<forall>c\<in>set (connections_tab d'). 0 \<le> strength c \<and> strength c \<le> 1"
  using assms
proof (induction as arbitrary: i d created failures)
  case Nil
  then show ?case by simp
next
  case (Cons a as)
  show ?case
  proof (cases "insertConnection w i d src (note_id a) (label a) (strength a)
                  (Some (assessment_reasoning a))")
    case (Inl err)
    with Cons.prems(1) have "persist w src cs (Suc i) as (d, created, failures + 1) = (d', created', failures')"
      by simp
    from Cons.IH [OF this Cons.prems(2)] show ?thesis .
  next
    case (Inr p)
    obtain d1 row where p: "p = (d1, row)" by (cases p)
    with Inr Cons.prems(1) have "persist w src cs (Suc i) as
        (d1, created @ [created_connection cs a], failures) = (d', created', failures')"
      by simp
    moreover have "\<forall>c\<in>set (connections_tab d1). 0 \<le> strength c \<and> strength c \<le> 1"
      using insertConnection_bound Inr p Cons.prems(2) by blast
    ultimately show ?thesis by (rule Cons.IH)
  qed
qed

lemma proposed_strength_bounded:
  assumes "a \<in> set (fst (choose_assessments (assessConnections w newNote cs) cs))"
  shows "0 \<le> strength a \<and> strength a \<le> 1 \<and> label a \<in> set VALID_LABELS"
  using assms
proof (rule choose_assessments_range)
  fix as b
  assume "assessConnections w newNote cs = Inr as" "b \<in> set as"
  then show "0 \<le> strength b \<and> strength b \<le> 1 \<and> label b \<in> set VALID_LABELS"
    by (rule assessConnections_range)
qed

lemma enrich_cases:
  assumes "enrich w d note newNote emb = (d', created, failures, wn)"
  obtains (quiet) "d' = d" "created = []" "failures = 0"
  | (run) similar cs as where
      "searchByEmbedding w d emb (AUTO_CONNECT_TOP_K w) None = Inr similar"
      "cs = filter (\<lambda>c. id' c \<noteq> id' note) similar" "cs \<noteq> []"
      "choose_assessments (assessConnections w newNote cs) cs = (as, wn)"
      "persist w (id' note) cs 0 as (d, [], 0) = (d', created, failures)"
  using assms unfolding enrich_def Let_def
  by (auto split: sum.splits if_splits prod.splits)

lemma enrich_bound:
  assumes "enrich w d note newNote emb = (d', created, failures, wn)"
  shows "(\<forall>e\<in>set created. 0 \<le> strength e \<and> strength e \<le> 1) \<and>
         ((\<forall>c\<in>set (connections_tab d). 0 \<le> strength c \<and> strength c \<le> 1) \<longrightarrow>
          (\<forall>c\<in>set (connections_tab d'). 0 \<le> strength c \<and> strength c \<le> 1))"
  using assms
proof (cases rule: enrich_cases)
  case quiet
  then show ?thesis by simp
next
  case (run similar cs as)
  from persist_created [OF run(5)] have sub: "set created \<subseteq> created_connection cs ` set as"
    by auto
  have "0 \<le> strength e \<and> strength e \<le> 1" if "e \<in> set created" for e
  proof -
    from that sub obtain a where a: "a \<in> set as" "e = created_connection cs a" by blast
    from a(1) run(4) have "a \<in> set (fst (choose_assessments (assessConnections w newNote cs) cs))"
      by simp
    from proposed_strength_bounded [OF this] a(2) show ?thesis by simp
  qed
  moreover have "(\<forall>c\<in>set (connections_tab d). 0 \<le> strength c \<and> strength c \<le> 1) \<longrightarrow>
          (\<forall>c\<in>set (connections_tab d'). 0 \<le> strength c \<and> strength c \<le> 1)"
    using persist_bound [OF run(5)] by blast
  ultimately show ?thesis by blast
qed

lemma save_cases:
  assumes "cortex_save_note w d t c tg src = (d', res)"
  obtains (failed) err where "d' = d" "res = ToolError err"
  | (saved) emb d1 nt created failures wn where
      "embed w (textToEmbed t c) = Inr emb"
      "insertNote w d t c tg src emb = Inr (d1, nt)"
      "enrich w d1 nt (t, c, tg) emb = (d', created, failures, wn)"
      "res = ToolObject \<lparr>saved_note = nt, connections = created,
                warning = final_warning failures wn,
                message = (if length created > 0
                         then ''Saved note and created ''
                              @ string_of_nat (length created) @ '' connection(s).''
                         else ''Saved note. No strong connections found.'')\<rparr>"
  using assms unfolding cortex_save_note_def
  by (auto split: sum.splits prod.splits)

lemma classifier_error_swallowed:
  assumes "completion w = Inl err"
  shows "assessConnections w newNote cs = Inr []"
  using assms by (simp add: assessConnections_def)

lemma no_client_no_assessment:
  assumes "\<not> getOpenAI w"
  shows "assessConnections w newNote cs = Inr []"
  using assms by (simp add: assessConnections_def)

lemma similarity_edges_empty:
  assumes "similarity_edges (2/5) 3 why cs = []"
  shows "similarity_edges (1/2) 2 why' cs = []"
proof -
  from assms have "filter (\<lambda>c. similarity c \<ge> 2/5) cs = []"
    by (auto simp: similarity_edges_def)
  then have "\<forall>c\<in>set cs. \<not> similarity c \<ge> 2/5"
    by (simp add: filter_empty_conv)
  then have "filter (\<lambda>c. similarity c \<ge> 1/2) cs = []"
    by (auto simp: filter_empty_conv)
  then show ?thesis by (simp add: similarity_edges_def)
qed

lemma thrown_assessment_fallback:
  "choose_assessments (Inl err) cs =
     (similarity_edges 0.4 3 unavailable_reasoning cs,
      Some (''Note saved. LLM connection assessment failed, using similarity fallback: '' @ err))"
proof (cases "similarity_edges (2/5) 3 unavailable_reasoning cs = []")
  case True
  with similarity_edges_empty [OF True, of no_relationship_reasoning] show ?thesis
    by (simp add: choose_assessments_def)
next
  case False
  then show ?thesis by (simp add: choose_assessments_def)
qed

lemma empty_assessment_fallback:
  "choose_assessments (Inr []) cs = (similarity_edges 0.5 2 no_relationship_reasoning cs, None)"
  by (simp add: choose_assessments_def)

lemma nonempty_assessment_kept:
  "as \<noteq> [] \<Longrightarrow> choose_assessments (Inr as) cs = (as, None)"
  by (simp add: choose_assessments_def)

lemma fallback_persisted:
  assumes ins: "insertNote w d t c tg src emb = Inr (d1, nt)"
    and srch: "searchByEmbedding w d1 emb (AUTO_CONNECT_TOP_K w) None = Inr similar"
    and cs: "filter (\<lambda>x. id' x \<noteq> id' nt) similar = cs"
    and per: "persist w (id' nt) cs 0 (similarity_edges th k why cs) (d1, [], 0) = (d2, created, failures)"
  shows "length created \<le> k"
    and "\<forall>e\<in>set created. label e = ''related_to'' \<and> created_reasoning e = why \<and>
           (\<exists>x\<in>set cs. similarity x \<ge> th \<and> created_target_id e = id' x \<and>
                        strength e = clamp01 (similarity x))"
    and "failures = length (take k (filter (\<lambda>x. similarity x \<ge> th) cs)) - length created"
    and "(\<forall>j. \<exists>p. upsert_reply w j = Inr p) \<longrightarrow>
           failures = 0 \<and>
           map (\<lambda>e. (created_target_id e, label e, strength e)) created =
           map (\<lambda>x. (id' x, ''related_to'', clamp01 (similarity x)))
               (take k (filter (\<lambda>x. similarity x \<ge> th) cs))"
proof -
  let ?as = "similarity_edges th k why cs"
  from persist_created [OF per] have new: "length created + failures = length ?as"
    "set created \<subseteq> created_connection cs ` set ?as"
    by auto
  have len: "length ?as = length (take k (filter (\<lambda>x. similarity x \<ge> th) cs))"
    by (simp add: similarity_edges_def)
  from new(1) similarity_edges_length [of th k why cs] show "length created \<le> k"
    by linarith
  show "\<forall>e\<in>set created. label e = ''related_to'' \<and> created_reasoning e = why \<and>
           (\<exists>x\<in>set cs. similarity x \<ge> th \<and> created_target_id e = id' x \<and>
                        strength e = clamp01 (similarity x))"
  proof
    fix e assume "e \<in> set created"
    with new(2) obtain a where a: "a \<in> set ?as" "e = created_connection cs a" by blast
    from similarity_edges_member [OF a(1)] a(2) show "label e = ''related_to'' \<and>
        created_reasoning e = why \<and>
        (\<exists>x\<in>set cs. similarity x \<ge> th \<and> created_target_id e = id' x \<and>
                     strength e = clamp01 (similarity x))"
      by simp
  qed
  from new(1) len show "failures = length (take k (filter (\<lambda>x. similarity x \<ge> th) cs)) - length created"
    by linarith
  show "(\<forall>j. \<exists>p. upsert_reply w j = Inr p) \<longrightarrow>
           failures = 0 \<and>
           map (\<lambda>e. (created_target_id e, label e, strength e)) created =
           map (\<lambda>x. (id' x, ''related_to'', clamp01 (similarity x)))
               (take k (filter (\<lambda>x. similarity x \<ge> th) cs))"
  proof
    assume ok: "\<forall>j. \<exists>p. upsert_reply w j = Inr p"
    have src: "id' nt \<in> set (map id' (notes_tab d1))"
      using insertNote_result [OF ins] by auto
    have valid: "note_id a \<in> set (map id' (notes_tab d1)) \<and> label a \<in> set VALID_LABELS \<and>
        0 \<le> strength a \<and> strength a \<le> 1" if "a \<in> set ?as" for a
    proof -
      from similarity_edges_member [OF that] obtain x where x: "x \<in> set cs"
        "note_id a = id' x" "strength a = clamp01 (similarity x)" "label a = ''related_to''"
        by blast
      from x(1) cs have "x \<in> set similar" by auto
      from search_ids [OF srch this] x clamp01_range related_to_valid show ?thesis
        by simp
    qed
    have sb: "getSupabase w = Inr ()"
      using insertNote_result [OF ins] by simp
    from persist_all_succeed [of w "id' nt" d1 ?as cs 0 "[]" 0] ok sb src valid
    obtain d' where "persist w (id' nt) cs 0 ?as (d1, [], 0)
        = (d', [] @ map (created_connection cs) ?as, 0)"
      by blast
    with per have "created = map (created_connection cs) ?as" "failures = 0"
      by simp_all
    then show "failures = 0 \<and>
           map (\<lambda>e. (created_target_id e, label e, strength e)) created =
           map (\<lambda>x. (id' x, ''related_to'', clamp01 (similarity x)))
               (take k (filter (\<lambda>x. similarity x \<ge> th) cs))"
      by (simp add: similarity_edges_def comp_def)
  qed
qed

text \<open>
  Claim C8: when the search returns no candidate other than the new note itself, the save
  creates no edge and returns no warning; the table of edges is unchanged.
\<close>

theorem save_without_candidates:
  assumes "embed w (textToEmbed t c) = Inr emb"
    and "insertNote w d t c tg src emb = Inr (d1, nt)"
    and "searchByEmbedding w d1 emb (AUTO_CONNECT_TOP_K w) None = Inr similar"
    and "filter (\<lambda>candidate. id' candidate \<noteq> id' nt) similar = []"
  shows "\<exists>r. cortex_save_note w d t c tg src = (d1, ToolObject r) \<and>
             connections r = [] \<and> warning r = None \<and> connections_tab d1 = connections_tab d"
proof -
  have "enrich w d1 nt (t, c, tg) emb = (d1, [], 0, None)"
    by (rule enrich_no_candidates [OF assms(3,4)])
  from save_result [OF assms(1,2) this] insertNote_result [OF assms(2)]
  show ?thesis by (auto simp: final_warning_def)
qed

text \<open>The first note of an empty database: the search finds the note itself and nothing else.\<close>

theorem save_without_candidates_witness:
  "embed (world (Inr []) stored) (textToEmbed None ''text'') = Inr [1, 0] \<and>
   insertNote (world (Inr []) stored) empty_db None ''text'' [] ''manual'' [1, 0] =
     Inr (\<lparr>notes_tab = [new_note], connections_tab = []\<rparr>, new_note) \<and>
   searchByEmbedding (world (Inr []) stored) \<lparr>notes_tab = [new_note], connections_tab = []\<rparr> [1, 0]
       (AUTO_CONNECT_TOP_K (world (Inr []) stored)) None = Inr [similar_note new_note 1] \<and>
   (\<exists>r. cortex_save_note (world (Inr []) stored) empty_db None ''text'' [] ''manual'' =
         (\<lparr>notes_tab = [new_note], connections_tab = []\<rparr>, ToolObject r) \<and>
        connections r = [] \<and> warning r = None)"
  using save_without_candidates [of "world (Inr []) stored" None "''text''" "[1, 0]" empty_db "[]"
      "''manual''" "\<lparr>notes_tab = [new_note], connections_tab = []\<rparr>" new_note
      "[similar_note new_note 1]"]
  by (simp add: save_defs example_defs)

text \<open>
  Claim C3, as amended: when the classification returns the empty set, the save synthesizes
  its edges from the candidates of similarity at least 0.5, at most two of them, each
  labelled \<^verbatim>\<open>related_to\<close> with the clamped similarity as strength.  The warning is that
  of the loop that stores the edges: null when every edge is stored (as when no upsert
  reports an error, and then the edges created are exactly the first two candidates from
  0.5), and otherwise the count of the edges that could not be stored.
\<close>

theorem empty_classification_fallback:
  assumes "embed w (textToEmbed t c) = Inr emb"
    and "insertNote w d t c tg src emb = Inr (d1, nt)"
    and "searchByEmbedding w d1 emb (AUTO_CONNECT_TOP_K w) None = Inr similar"
    and "filter (\<lambda>x. id' x \<noteq> id' nt) similar = cs" and "cs \<noteq> []"
    and "assessConnections w (t, c, tg) cs = Inr []"
  shows "\<exists>d2 r. cortex_save_note w d t c tg src = (d2, ToolObject r) \<and>
           length (connections r) \<le> 2 \<and>
           (\<forall>e\<in>set (connections r). label e = ''related_to'' \<and>
               (\<exists>x\<in>set cs. similarity x \<ge> 0.5 \<and> created_target_id e = id' x \<and>
                            strength e = clamp01 (similarity x))) \<and>
           warning r = final_warning
             (length (take 2 (filter (\<lambda>x. similarity x \<ge> 0.5) cs)) - length (connections r)) None \<and>
           ((\<forall>j. \<exists>p. upsert_reply w j = Inr p) \<longrightarrow>
              map (\<lambda>e. (created_target_id e, label e, strength e)) (connections r) =
              map (\<lambda>x. (id' x, ''related_to'', clamp01 (similarity x)))
                  (take 2 (filter (\<lambda>x. similarity x \<ge> 0.5) cs)) \<and>
              warning r = None)"
proof -
  let ?as = "similarity_edges 0.5 2 no_relationship_reasoning cs"
  obtain d2 created failures where
    per: "persist w (id' nt) cs 0 ?as (d1, [], 0) = (d2, created, failures)"
    by (metis prod_cases3)
  have ch: "choose_assessments (assessConnections w (t, c, tg) cs) cs = (?as, None)"
    using assms(6) empty_assessment_fallback by simp
  have "enrich w d1 nt (t, c, tg) emb = (d2, created, failures, None)"
    by (rule enrich_candidates [OF assms(3,4,5) ch per])
  from save_result [OF assms(1,2) this] obtain r where
    r: "cortex_save_note w d t c tg src = (d2, ToolObject r)" "connections r = created"
       "warning r = final_warning failures None"
    by blast
  note fb = fallback_persisted [OF assms(2,3,4) per]
  from fb(4) have "(\<forall>j. \<exists>p. upsert_reply w j = Inr p) \<longrightarrow>
      map (\<lambda>e. (created_target_id e, label e, strength e)) created =
      map (\<lambda>x. (id' x, ''related_to'', clamp01 (similarity x)))
          (take 2 (filter (\<lambda>x. similarity x \<ge> 0.5) cs)) \<and>
      final_warning failures None = None"
    by (auto simp: final_warning_def)
  with r fb(1,2,3) show ?thesis
    by (intro exI [of _ d2] exI [of _ r]) auto
qed

text \<open>
  The classifier answers \<open>[]\<close> and every upsert is stored: of the candidates \<open>A\<close> (0.8),
  \<open>B\<close> (0.6) and \<open>C\<close> (8/17) the first two get an edge, and there is no warning.
\<close>

theorem empty_classification_fallback_witness:
  "embed (world (Inr []) stored) (textToEmbed None ''text'') = Inr [1, 0] \<and>
   insertNote (world (Inr []) stored) library None ''text'' [] ''manual'' [1, 0] =
     Inr (library_with_new, new_note) \<and>
   searchByEmbedding (world (Inr []) stored) library_with_new [1, 0]
       (AUTO_CONNECT_TOP_K (world (Inr []) stored)) None =
     Inr (similar_note new_note 1 # candidates_ABC) \<and>
   filter (\<lambda>x. id' x \<noteq> id' new_note) (similar_note new_note 1 # candidates_ABC) = candidates_ABC \<and>
   assessConnections (world (Inr []) stored) (None, ''text'', []) candidates_ABC = Inr [] \<and>
   (\<exists>d2 r. cortex_save_note (world (Inr []) stored) library None ''text'' [] ''manual'' =
             (d2, ToolObject r) \<and>
           map (\<lambda>e. (created_target_id e, label e, strength e)) (connections r) =
             [(''A'', ''related_to'', 4/5), (''B'', ''related_to'', 3/5)] \<and>
           warning r = None)"
  using empty_classification_fallback [of "world (Inr []) stored" None "''text''" "[1, 0]" library
      "[]" "''manual''" library_with_new new_note "similar_note new_note 1 # candidates_ABC"
      candidates_ABC]
  by (simp add: save_defs example_defs)

text \<open>
  The claim as stated fails: the classification returns the empty set, the database
  refuses both upserts, and the warning returned is not null.
\<close>

theorem empty_classification_warning:
  "assessConnections (world (Inr []) refused) (None, ''text'', []) candidates_ABC = Inr [] \<and>
   snd (cortex_save_note (world (Inr []) refused) library None ''text'' [] ''manual'') =
     ToolObject \<lparr>saved_note = new_note, connections = [],
       warning = Some ''Failed to persist 2 connection(s). Check server logs for details.'',
       message = ''Saved note. No strong connections found.''\<rparr>"
  by (simp add: save_defs example_defs)

text \<open>
  Claim C4: every edge a save persists has a strength in \<open>[0,1]\<close>, whether the classifier
  proposed it or a fallback synthesized it: this holds of every assessment handed to the
  loop that stores them, of every entry of \<^verbatim>\<open>connectionsCreated\<close>, and the table of
  edges keeps the bound.
\<close>

theorem persisted_strength_bounded:
  "(\<forall>a\<in>set (fst (choose_assessments (assessConnections w newNote candidates) candidates)).
       0 \<le> strength a \<and> strength a \<le> 1) \<and>
   (cortex_save_note w d t c tg src = (d', ToolObject r) \<longrightarrow>
       (\<forall>e\<in>set (connections r). 0 \<le> strength e \<and> strength e \<le> 1)) \<and>
   (cortex_save_note w d t c tg src = (d', res) \<longrightarrow>
       (\<forall>e\<in>set (connections_tab d). 0 \<le> strength e \<and> strength e \<le> 1) \<longrightarrow>
       (\<forall>e\<in>set (connections_tab d'). 0 \<le> strength e \<and> strength e \<le> 1))"
proof (intro conjI impI)
  show "\<forall>a\<in>set (fst (choose_assessments (assessConnections w newNote candidates) candidates)).
       0 \<le> strength a \<and> strength a \<le> 1"
    using proposed_strength_bounded by blast
next
  assume "cortex_save_note w d t c tg src = (d', ToolObject r)"
  then show "\<forall>e\<in>set (connections r). 0 \<le> strength e \<and> strength e \<le> 1"
  proof (cases rule: save_cases)
    case (failed err)
    then show ?thesis by simp
  next
    case (saved emb d1 nt created failures wn)
    from enrich_bound [OF saved(3)] saved(4) show ?thesis by simp
  qed
next
  assume s: "cortex_save_note w d t c tg src = (d', res)"
    and b: "\<forall>e\<in>set (connections_tab d). 0 \<le> strength e \<and> strength e \<le> 1"
  from s show "\<forall>e\<in>set (connections_tab d'). 0 \<le> strength e \<and> strength e \<le> 1"
  proof (cases rule: save_cases)
    case (failed err)
    with b show ?thesis by simp
  next
    case (saved emb d1 nt created failures wn)
    from insertNote_result [OF saved(2)] b
    have "\<forall>e\<in>set (connections_tab d1). 0 \<le> strength e \<and> strength e \<le> 1" by simp
    with enrich_bound [OF saved(3)] show ?thesis by blast
  qed
qed

text \<open>
  The classifier proposes \<open>A\<close> with strength 0.7, \<open>B\<close> with an unknown label and \<open>C\<close>
  with strength 1.5: only the edge to \<open>A\<close> is stored.
\<close>

theorem persisted_strength_bounded_witness:
  "fst (choose_assessments
         (assessConnections (world (Inr mixed_reply) stored) (None, ''text'', []) candidates_ABC)
         candidates_ABC) = [assessment_of (entry ''A'' ''supports'' 0.7)] \<and>
   cortex_save_note (world (Inr mixed_reply) stored) library None ''text'' [] ''manual'' =
     (library_with_new\<lparr>connections_tab :=
         [\<lparr>label = ''supports'', strength = 7/10, edge_id = ''E0'', source_id = ''N'',
           target_id = ''A'', reasoning = Some ''why'', edge_created_at = 3\<rparr>]\<rparr>,
      ToolObject \<lparr>saved_note = new_note,
        connections = [\<lparr>label = ''supports'', strength = 7/10, created_target_id = ''A'',
                        target_title = Some ''A'', created_reasoning = ''why''\<rparr>],
        warning = None, message = ''Saved note and created 1 connection(s).''\<rparr>) \<and>
   connections_tab library = []"
  using persisted_strength_bounded [of "world (Inr mixed_reply) stored" "(None, ''text'', [])"
      candidates_ABC library None "''text''" "[]" "''manual''"
      "library_with_new\<lparr>connections_tab :=
         [\<lparr>label = ''supports'', strength = 7/10, edge_id = ''E0'', source_id = ''N'',
           target_id = ''A'', reasoning = Some ''why'', edge_created_at = 3\<rparr>]\<rparr>"
      "\<lparr>saved_note = new_note,
        connections = [\<lparr>label = ''supports'', strength = 7/10, created_target_id = ''A'',
                        target_title = Some ''A'', created_reasoning = ''why''\<rparr>],
        warning = None, message = ''Saved note and created 1 connection(s).''\<rparr>"
      "ToolObject \<lparr>saved_note = new_note,
        connections = [\<lparr>label = ''supports'', strength = 7/10, created_target_id = ''A'',
                        target_title = Some ''A'', created_reasoning = ''why''\<rparr>],
        warning = None, message = ''Saved note and created 1 connection(s).''\<rparr>"]
  by (simp add: save_defs example_defs assessment_of_def string_field_def number_field_def)

text \<open>
  Claim C1: when the classification step raises an error and a candidate remains, the save
  takes the candidates from 0.4, at most three, and returns a warning.  The code of
  \<^verbatim>\<open>cortex_save_note\<close> does so when \<^verbatim>\<open>assessConnections\<close> throws
  (\<open>thrown_assessment_fallback\<close>), but \<^verbatim>\<open>assessConnections\<close> never throws
  (\<open>assessConnections_never_throws\<close>): it catches the error of the request and returns
  \<open>[]\<close> (\<open>classifier_error_swallowed\<close>).  So the save takes the branch of the empty
  classification: with the candidates \<open>A\<close> (0.8), \<open>B\<close> (0.6) and \<open>C\<close> (8/17) and a
  request that times out, it creates the two edges from 0.5 and returns no warning, where
  the claim has three edges and a warning.
\<close>

theorem classifier_failure_not_reported:
  "searchByEmbedding (world (Inl ''timeout'') stored) library_with_new [1, 0] 5 None =
     Inr (similar_note new_note 1 # candidates_ABC) \<and>
   map note_id (similarity_edges 0.4 3 unavailable_reasoning candidates_ABC) = [''A'', ''B'', ''C''] \<and>
   snd (cortex_save_note (world (Inl ''timeout'') stored) library None ''text'' [] ''manual'') =
     ToolObject \<lparr>saved_note = new_note,
       connections =
         [\<lparr>label = ''related_to'', strength = 4/5, created_target_id = ''A'',
           target_title = Some ''A'', created_reasoning = no_relationship_reasoning\<rparr>,
          \<lparr>label = ''related_to'', strength = 3/5, created_target_id = ''B'',
           target_title = Some ''B'', created_reasoning = no_relationship_reasoning\<rparr>],
       warning = None,
       message = ''Saved note and created 2 connection(s).''\<rparr>"
  by (simp add: save_defs example_defs)

text \<open>
  A save can store an edge from the new note to itself: the \<^verbatim>\<open>note_id\<close> of an
  assessment is not compared with the candidates, and the new note is in the table when
  the edge is stored.
\<close>

lemma save_stores_self_loop:
  "connections_tab (fst (cortex_save_note (world (Inr [entry ''N'' ''related_to'' 0.9]) stored)
       library None ''text'' [] ''manual'')) =
   [\<lparr>label = ''related_to'', strength = 9/10, edge_id = ''E0'', source_id = ''N'',
     target_id = ''N'', reasoning = Some ''why'', edge_created_at = 3\<rparr>]"
  by (simp add: save_defs example_defs)

subsection \<open>Deep connections\<close>

text \<open>
  The traversal scenario of the specification: \<open>Q\<close> is reachable at depth 1 and at depth
  2 and is reported once, at depth 1; \<open>S\<close>, three hops away, is not reported for depth 2.
\<close>

lemma deep_scenario:
  "map (\<lambda>r. (id' r, depth r, connection_label r)) (get_connections_deep scenario_deep ''root'' 2 0.3) =
   [(''P'', 1, ''supports''), (''Q'', 1, ''related_to''), (''R'', 2, ''contradicts'')]"
  by (simp add: deep_defs example_defs)

lemma in_neighbours:
  "x \<in> set (neighbours d s b) \<longleftrightarrow>
     (\<exists>c n. c \<in> set (connections_tab d) \<and> strength c \<ge> s \<and> n \<in> set (notes_tab d) \<and>
            joins b (id' n) c \<and> x = id' n)"
  by (auto simp: neighbours_def)

lemma in_reach_Suc:
  "x \<in> set (reach d s a (Suc k)) \<longleftrightarrow> (\<exists>b\<in>set (reach d s a k). x \<in> set (neighbours d s b))"
  by auto

lemma joins_other_end:
  "(source_id c = g \<or> target_id c = g) \<and> x = (if source_id c = g then target_id c else source_id c)
     \<longleftrightarrow> joins g x c"
  by (auto simp: joins_def)

lemma in_concat_map: "r \<in> set (concat (map f xs)) \<longleftrightarrow> (\<exists>x\<in>set xs. r \<in> set (f x))"
  by auto

lemma in_set_if: "r \<in> set (if P then xs else []) \<longleftrightarrow> P \<and> r \<in> set xs"
  by simp

lemma in_set_single: "r \<in> set [x] \<longleftrightarrow> r = x"
  by simp

lemma in_recursive_term_raw:
  "r \<in> set (recursive_term d root_id md s ws) \<longleftrightarrow>
     (\<exists>g\<in>set ws. \<exists>c\<in>set (connections_tab d). (source_id c = id' g \<or> target_id c = id' g) \<and>
        (\<exists>n\<in>set (notes_tab d).
           id' n = (if source_id c = id' g then target_id c else source_id c) \<and>
           (depth g < md \<and> strength c \<ge> s \<and> id' n \<noteq> root_id) \<and>
           r = graph_node n (depth g + 1) c))"
  unfolding recursive_term_def
  by (simp only: in_concat_map in_set_if in_set_single)

lemma in_recursive_term:
  "r \<in> set (recursive_term d root_id md s ws) \<longleftrightarrow>
     (\<exists>g c n. g \<in> set ws \<and> c \<in> set (connections_tab d) \<and> n \<in> set (notes_tab d) \<and>
              joins (id' g) (id' n) c \<and> depth g < md \<and> strength c \<ge> s \<and> id' n \<noteq> root_id \<and>
              r = graph_node n (depth g + 1) c)"
proof
  assume "r \<in> set (recursive_term d root_id md s ws)"
  then obtain g c n where h: "g \<in> set ws" "c \<in> set (connections_tab d)"
      "(source_id c = id' g \<or> target_id c = id' g) \<and>
       id' n = (if source_id c = id' g then target_id c else source_id c)"
      "n \<in> set (notes_tab d)" "depth g < md" "strength c \<ge> s" "id' n \<noteq> root_id"
      "r = graph_node n (depth g + 1) c"
    unfolding in_recursive_term_raw by blast
  from h(3) have "joins (id' g) (id' n) c"
    unfolding joins_other_end .
  with h show "\<exists>g c n. g \<in> set ws \<and> c \<in> set (connections_tab d) \<and> n \<in> set (notes_tab d) \<and>
              joins (id' g) (id' n) c \<and> depth g < md \<and> strength c \<ge> s \<and> id' n \<noteq> root_id \<and>
              r = graph_node n (depth g + 1) c"
    by blast
next
  assume "\<exists>g c n. g \<in> set ws \<and> c \<in> set (connections_tab d) \<and> n \<in> set (notes_tab d) \<and>
              joins (id' g) (id' n) c \<and> depth g < md \<and> strength c \<ge> s \<and> id' n \<noteq> root_id \<and>
              r = graph_node n (depth g + 1) c"
  then obtain g c n where h: "g \<in> set ws" "c \<in> set (connections_tab d)" "n \<in> set (notes_tab d)"
      "joins (id' g) (id' n) c" "depth g < md" "strength c \<ge> s" "id' n \<noteq> root_id"
      "r = graph_node n (depth g + 1) c"
    by blast
  from h(4) have "(source_id c = id' g \<or> target_id c = id' g) \<and>
       id' n = (if source_id c = id' g then target_id c else source_id c)"
    unfolding joins_other_end .
  with h show "r \<in> set (recursive_term d root_id md s ws)"
    unfolding in_recursive_term_raw by blast
qed

lemma recursive_term_mono:
  "set ws \<subseteq> set ws' \<Longrightarrow> set (recursive_term d root_id md s ws) \<subseteq> set (recursive_term d root_id md s ws')"
  unfolding in_recursive_term subset_iff by blast

lemma recursive_term_single:
  "r \<in> set (recursive_term d root_id md s ws) \<longleftrightarrow>
     (\<exists>g\<in>set ws. r \<in> set (recursive_term d root_id md s [g]))"
  unfolding in_recursive_term by auto

lemma graph_loop_mono:
  "set result \<subseteq> set (graph_loop d root_id md s result working)"
proof (induction d root_id md s result working rule: graph_loop.induct)
  case (1 d root_id md s result)
  then show ?case by simp
next
  case (2 d root_id md s result w ws)
  let ?new = "remdups (filter (\<lambda>r. r \<notin> set result) (recursive_term d root_id md s (w # ws)))"
  from 2 [of ?new] have "set (result @ ?new) \<subseteq> set (graph_loop d root_id md s (result @ ?new) ?new)"
    by simp
  then show ?case by (simp add: Let_def)
qed

lemma graph_loop_invariant:
  "(\<And>ws r. (\<forall>g\<in>set ws. P g) \<Longrightarrow> r \<in> set (recursive_term d root_id md s ws) \<Longrightarrow> P r) \<Longrightarrow>
   (\<forall>r\<in>set result. P r) \<Longrightarrow> set working \<subseteq> set result \<Longrightarrow>
   (\<forall>r\<in>set (graph_loop d root_id md s result working). P r)"
proof (induction d root_id md s result working rule: graph_loop.induct)
  case (1 d root_id md s result)
  then show ?case by simp
next
  case (2 d root_id md s result w ws)
  let ?new = "remdups (filter (\<lambda>r. r \<notin> set result) (recursive_term d root_id md s (w # ws)))"
  have w: "\<forall>g\<in>set (w # ws). P g"
    using "2.prems"(2,3) by auto
  have "\<forall>r\<in>set ?new. P r"
    using "2.prems"(1) [OF w] by auto
  with "2.prems"(2) have "\<forall>r\<in>set (result @ ?new). P r" by auto
  moreover have "set ?new \<subseteq> set (result @ ?new)" by auto
  ultimately have "\<forall>r\<in>set (graph_loop d root_id md s (result @ ?new) ?new). P r"
    using "2.IH" [of ?new] "2.prems"(1) by blast
  then show ?case by (simp add: Let_def)
qed

lemma graph_loop_closed:
  "set working \<subseteq> set result \<Longrightarrow>
   (\<forall>g\<in>set result - set working. set (recursive_term d root_id md s [g]) \<subseteq> set result) \<Longrightarrow>
   (\<forall>g\<in>set (graph_loop d root_id md s result working).
      set (recursive_term d root_id md s [g]) \<subseteq> set (graph_loop d root_id md s result working))"
proof (induction d root_id md s result working rule: graph_loop.induct)
  case (1 d root_id md s result)
  then show ?case by simp
next
  case (2 d root_id md s result w ws)
  let ?new = "remdups (filter (\<lambda>r. r \<notin> set result) (recursive_term d root_id md s (w # ws)))"
  let ?res = "result @ ?new"
  have all: "set (recursive_term d root_id md s (w # ws)) \<subseteq> set ?res"
    by auto
  have closed: "\<forall>g\<in>set ?res - set ?new. set (recursive_term d root_id md s [g]) \<subseteq> set ?res"
  proof
    fix g assume g: "g \<in> set ?res - set ?new"
    then have gr: "g \<in> set result" by auto
    show "set (recursive_term d root_id md s [g]) \<subseteq> set ?res"
    proof (cases "g \<in> set (w # ws)")
      case True
      then have "set (recursive_term d root_id md s [g]) \<subseteq> set (recursive_term d root_id md s (w # ws))"
        by (intro recursive_term_mono) auto
      with all show ?thesis by blast
    next
      case False
      with gr "2.prems"(2) have "set (recursive_term d root_id md s [g]) \<subseteq> set result"
        by blast
      then show ?thesis by auto
    qed
  qed
  have "set ?new \<subseteq> set ?res" by auto
  from "2.IH" [of ?new, OF refl this closed] show ?case
    by (simp add: Let_def)
qed

lemma base_rows_eq: "remdups (outgoing_rows d root_id s @ incoming_rows d root_id s) = get_connections d root_id s"
  by (simp add: get_connections_def)

lemma graph_eq: "graph d root_id md s =
    graph_loop d root_id md s (get_connections d root_id s) (get_connections d root_id s)"
  by (simp add: graph_def Let_def get_connections_def)

lemma graph_base: "set (get_connections d root_id s) \<subseteq> set (graph d root_id md s)"
  unfolding graph_eq by (rule graph_loop_mono)

lemma graph_closed:
  assumes "g \<in> set (graph d root_id md s)"
  shows "set (recursive_term d root_id md s [g]) \<subseteq> set (graph d root_id md s)"
proof -
  have "\<forall>g\<in>set (graph_loop d root_id md s (get_connections d root_id s) (get_connections d root_id s)).
      set (recursive_term d root_id md s [g])
        \<subseteq> set (graph_loop d root_id md s (get_connections d root_id s) (get_connections d root_id s))"
    by (rule graph_loop_closed) auto
  with assms show ?thesis unfolding graph_eq by blast
qed


lemma row_sound_reach:
  assumes "row_sound d root_id md s r"
  shows "id' r \<in> set (reach d s root_id (nat (depth r)))"
proof -
  from assms obtain b c n where h: "1 \<le> depth r" "b \<in> set (reach d s root_id (nat (depth r) - 1))"
    "c \<in> set (connections_tab d)" "strength c \<ge> s" "joins b (id' r) c"
    "n \<in> set (notes_tab d)" "id' r = id' n"
    unfolding row_sound_def by auto
  then have "id' r \<in> set (neighbours d s b)"
    unfolding in_neighbours by auto
  moreover from h(1) have "nat (depth r) = Suc (nat (depth r) - 1)" by simp
  ultimately show ?thesis
    using h(2) in_reach_Suc by metis
qed

lemma base_row_sound:
  assumes "r \<in> set (get_connections d root_id s)"
  shows "row_sound d root_id md s r"
proof -
  from assms obtain c n where cn: "c \<in> set (connections_tab d)" "n \<in> set (notes_tab d)"
      "joins root_id (id' n) c" "strength c \<ge> s" "r = graph_node n 1 c"
    unfolding in_get_connections by blast
  then show ?thesis
    unfolding row_sound_def
    by (auto intro!: exI [of _ root_id] exI [of _ c])
qed

lemma recursive_row_sound:
  assumes "\<forall>g\<in>set ws. row_sound d root_id md s g" "r \<in> set (recursive_term d root_id md s ws)"
  shows "row_sound d root_id md s r"
proof -
  from assms(2) obtain g c n where h: "g \<in> set ws" "c \<in> set (connections_tab d)"
      "n \<in> set (notes_tab d)" "joins (id' g) (id' n) c" "depth g < md" "strength c \<ge> s"
      "id' n \<noteq> root_id" "r = graph_node n (depth g + 1) c"
    unfolding in_recursive_term by blast
  from assms(1) h(1) have g: "row_sound d root_id md s g" by blast
  then have g1: "1 \<le> depth g" by (simp add: row_sound_def)
  have "id' g \<in> set (reach d s root_id (nat (depth g)))"
    by (rule row_sound_reach [OF g])
  moreover have "nat (depth r) - 1 = nat (depth g)"
    using h(8) g1 by simp
  ultimately have b: "id' g \<in> set (reach d s root_id (nat (depth r) - 1))" by simp
  show ?thesis
    unfolding row_sound_def
  proof (intro conjI)
    show "1 \<le> depth r" using h(8) g1 by simp
    show "depth r \<le> md \<or> depth r = 1" using h(5,8) by simp
    show "id' r = root_id \<longrightarrow> depth r = 1" using h(7,8) by simp
    show "\<exists>b c. b \<in> set (reach d s root_id (nat (depth r) - 1)) \<and> c \<in> set (connections_tab d) \<and>
             strength c \<ge> s \<and> joins b (id' r) c \<and> id' r \<in> set (map id' (notes_tab d)) \<and>
             connection_label r = label c \<and> connection_strength r = strength c"
      using b h by (intro exI [of _ "id' g"] exI [of _ c]) auto
  qed
qed

lemma graph_row_sound:
  assumes "r \<in> set (graph d root_id md s)"
  shows "row_sound d root_id md s r"
proof -
  have "\<forall>r\<in>set (graph_loop d root_id md s (get_connections d root_id s) (get_connections d root_id s)).
      row_sound d root_id md s r"
  proof (rule graph_loop_invariant)
    show "\<forall>r\<in>set (get_connections d root_id s). row_sound d root_id md s r"
      using base_row_sound by blast
  qed (use recursive_row_sound in auto)
  with assms show ?thesis unfolding graph_eq by blast
qed

lemma graph_complete:
  assumes "x \<in> set (reach d s root_id k)" "1 \<le> k" "int k \<le> md" "x \<noteq> root_id"
  shows "\<exists>g\<in>set (graph d root_id md s). id' g = x \<and> depth g \<le> int k"
  using assms
proof (induction k arbitrary: x)
  case 0
  then show ?case by simp
next
  case (Suc j)
  from Suc.prems(1) obtain b where b: "b \<in> set (reach d s root_id j)" "x \<in> set (neighbours d s b)"
    unfolding in_reach_Suc by blast
  from b(2) obtain c n where cn: "c \<in> set (connections_tab d)" "strength c \<ge> s"
      "n \<in> set (notes_tab d)" "joins b (id' n) c" "x = id' n"
    unfolding in_neighbours by blast
  show ?case
  proof (cases "b = root_id")
    case True
    with cn have "graph_node n 1 c \<in> set (get_connections d root_id s)"
      unfolding in_get_connections by blast
    with graph_base have "graph_node n 1 c \<in> set (graph d root_id md s)" by blast
    with cn(5) show ?thesis
      by (intro bexI [of _ "graph_node n 1 c"]) auto
  next
    case False
    with b(1) have j: "1 \<le> j" by (cases j) auto
    from Suc.IH [OF b(1) j _ False] Suc.prems(3) obtain g
      where g: "g \<in> set (graph d root_id md s)" "id' g = b" "depth g \<le> int j"
      by auto
    from g(3) Suc.prems(3) have lt: "depth g < md" by simp
    have "graph_node n (depth g + 1) c \<in> set (recursive_term d root_id md s [g])"
      unfolding in_recursive_term using cn g(2) lt Suc.prems(4) by auto
    with graph_closed [OF g(1)] have "graph_node n (depth g + 1) c \<in> set (graph d root_id md s)"
      by blast
    with cn(5) g(3) show ?thesis
      by (intro bexI [of _ "graph_node n (depth g + 1) c"]) auto
  qed
qed

lemma take_1_hd: "r \<in> set (take 1 xs) \<Longrightarrow> xs \<noteq> [] \<and> r = hd xs"
  by (cases xs) auto

lemma sorted_hd_least:
  assumes "sorted (map f xs)" "q \<in> set xs"
  shows "f (hd xs) \<le> f q"
  using assms by (cases xs) auto

lemma first_of_group:
  assumes "r \<in> set (take 1 (sort_key depth (filter (\<lambda>r. id' r = i) rows)))"
  shows "r \<in> set rows \<and> id' r = i \<and> (\<forall>q\<in>set rows. id' q = i \<longrightarrow> depth r \<le> depth q)"
proof -
  let ?L = "sort_key depth (filter (\<lambda>r. id' r = i) rows)"
  from take_1_hd [OF assms] have ne: "?L \<noteq> []" and r: "r = hd ?L" by auto
  from ne have "hd ?L \<in> set ?L" by (rule hd_in_set)
  with r have "r \<in> set ?L" by simp
  then have "r \<in> set (filter (\<lambda>r. id' r = i) rows)" by simp
  then have in_rows: "r \<in> set rows" "id' r = i" by auto
  have "depth r \<le> depth q" if "q \<in> set rows" "id' q = i" for q
  proof -
    from that have "q \<in> set ?L" by simp
    with sorted_hd_least [of depth ?L q] r show ?thesis by simp
  qed
  with in_rows show ?thesis by blast
qed

lemma in_distinct_on_id:
  assumes "r \<in> set (distinct_on_id rows)"
  shows "r \<in> set rows \<and> (\<forall>q\<in>set rows. id' q = id' r \<longrightarrow> depth r \<le> depth q)"
proof -
  from assms obtain i where "r \<in> set (take 1 (sort_key depth (filter (\<lambda>r. id' r = i) rows)))"
    unfolding distinct_on_id_def by auto
  from first_of_group [OF this] show ?thesis by blast
qed

lemma group_ids:
  assumes "set ids \<subseteq> id' ` set rows"
  shows "map id' (concat (map (\<lambda>i. take 1 (sort_key depth (filter (\<lambda>r. id' r = i) rows))) ids)) = ids"
  using assms
proof (induction ids)
  case Nil
  then show ?case by simp
next
  case (Cons i ids)
  let ?L = "sort_key depth (filter (\<lambda>r. id' r = i) rows)"
  from Cons.prems obtain q where "q \<in> set rows" "id' q = i" by auto
  then have "q \<in> set ?L" by simp
  then obtain x xs where L: "?L = x # xs" by (cases ?L) auto
  then have "x \<in> set ?L" by simp
  then have "id' x = i" by auto
  with L have "map id' (take 1 ?L) = [i]" by simp
  with Cons show ?case by simp
qed

lemma distinct_on_id_ids: "map id' (distinct_on_id rows) = sort (remdups (map id' rows))"
  unfolding distinct_on_id_def by (rule group_ids) auto

lemma distinct_on_id_distinct: "distinct (map id' (distinct_on_id rows))"
  by (simp add: distinct_on_id_ids)

lemma distinct_on_id_keeps: "id' ` set (distinct_on_id rows) = id' ` set rows"
proof -
  have "set (map id' (distinct_on_id rows)) = set (map id' rows)"
    by (simp add: distinct_on_id_ids)
  then show ?thesis by simp
qed

text \<open>
  Every row of \<^verbatim>\<open>get_connections_deep\<close>: no id occurs twice; the depth is at least 1 and
  at most \<^verbatim>\<open>max_depth\<close> (or 1); the note is reachable at that depth and, unless it is
  the root, at no smaller depth; the label and strength are those of an edge that joins it
  to a note reachable in one step less; and the root occurs only at depth 1 and only through
  an edge from the root to itself.
\<close>

lemma deep_connections_min_depth:
  assumes "r \<in> set (get_connections_deep d root_id md s)"
  shows "distinct (map id' (get_connections_deep d root_id md s)) \<and>
         1 \<le> depth r \<and> (depth r \<le> md \<or> depth r = 1) \<and>
         id' r \<in> set (reach d s root_id (nat (depth r))) \<and>
         (id' r \<noteq> root_id \<longrightarrow> (\<forall>k. 1 \<le> k \<and> int k < depth r \<longrightarrow> id' r \<notin> set (reach d s root_id k))) \<and>
         (\<exists>b c. b \<in> set (reach d s root_id (nat (depth r) - 1)) \<and> c \<in> set (connections_tab d) \<and>
                strength c \<ge> s \<and> joins b (id' r) c \<and>
                connection_label r = label c \<and> connection_strength r = strength c) \<and>
         (id' r = root_id \<longrightarrow> depth r = 1 \<and>
            (\<exists>c\<in>set (connections_tab d). strength c \<ge> s \<and> source_id c = root_id \<and> target_id c = root_id))"
proof -
  let ?G = "graph d root_id md s"
  from assms have rG: "r \<in> set ?G" and least: "\<forall>q\<in>set ?G. id' q = id' r \<longrightarrow> depth r \<le> depth q"
    unfolding get_connections_deep_def using in_distinct_on_id by blast+
  from graph_row_sound [OF rG] have sound: "row_sound d root_id md s r" .
  then obtain b c where h: "1 \<le> depth r" "depth r \<le> md \<or> depth r = 1"
      "id' r = root_id \<longrightarrow> depth r = 1"
      "b \<in> set (reach d s root_id (nat (depth r) - 1))" "c \<in> set (connections_tab d)"
      "strength c \<ge> s" "joins b (id' r) c"
      "connection_label r = label c" "connection_strength r = strength c"
    unfolding row_sound_def by blast
  have minimal: "id' r \<notin> set (reach d s root_id k)"
    if nr: "id' r \<noteq> root_id" and k1: "1 \<le> k" and kd: "int k < depth r" for k
  proof
    assume "id' r \<in> set (reach d s root_id k)"
    moreover from h(2) k1 kd have "int k \<le> md" by linarith
    ultimately obtain g where "g \<in> set ?G" "id' g = id' r" "depth g \<le> int k"
      using graph_complete nr k1 by blast
    with least kd show False by force
  qed
  have loop: "depth r = 1 \<and>
      (\<exists>c\<in>set (connections_tab d). strength c \<ge> s \<and> source_id c = root_id \<and> target_id c = root_id)"
    if "id' r = root_id"
  proof -
    from h(3) that have d1: "depth r = 1" by simp
    with h(4) have "b = root_id" by simp
    with h(7) \<open>id' r = root_id\<close> have "source_id c = root_id \<and> target_id c = root_id"
      by (auto simp: joins_def)
    with d1 h(5,6) show ?thesis by blast
  qed
  have "distinct (map id' (get_connections_deep d root_id md s))"
    unfolding get_connections_deep_def by (rule distinct_on_id_distinct)
  with h row_sound_reach [OF sound] minimal loop show ?thesis
    by blast
qed

text \<open>Every other note within \<^verbatim>\<open>max_depth\<close> steps of the root is returned.\<close>

lemma deep_connections_complete:
  assumes "x \<in> set (reach d s root_id k)" "1 \<le> k" "int k \<le> md" "x \<noteq> root_id"
  shows "x \<in> id' ` set (get_connections_deep d root_id md s)"
proof -
  from graph_complete [OF assms] have "x \<in> id' ` set (graph d root_id md s)" by force
  then show ?thesis
    unfolding get_connections_deep_def distinct_on_id_keeps .
qed

text \<open>
  Claim C2: every note \<^verbatim>\<open>deepConnections(root, d, s)\<close> returns is distinct from the root,
  appears once, and is reported at its minimum depth with the label and strength of an edge
  on a path of that depth.  All of it holds (\<open>deep_connections_min_depth\<close>) but the
  first: the recursive arm of \<^verbatim>\<open>get_connections_deep\<close> excludes the root, its two
  non-recursive arms do not, and with an edge from the root to itself in the table the root
  is returned at depth 1.
\<close>

theorem deep_connections_return_root:
  "map (\<lambda>r. (id' r, depth r, connection_label r, connection_strength r))
       (get_connections_deep self_loop ''root'' 2 0.3) =
   [(''P'', 1, ''supports'', 1/2), (''root'', 1, ''related_to'', 1/2)]"
  by (simp add: deep_defs example_defs)

end
